theory Spec2Isabelle
  imports Complex_Main "HOL-Library.Sublist" "HOL-Library.Multiset"
begin

section \<open>Game configuration (utils/gameData.js)\<close>

text \<open>
  JavaScript numbers that hold counts, points and millisecond times are modelled as
  unbounded integers; the two fractional constants of the source (the multiplier
  \<open>1.5\<close> and the factor \<open>0.5\<close>) are rationals, and \<open>Math.floor\<close> is
  \<open>floor\<close>.  Strings are character lists; an emoji glyph is the list of its Unicode
  code points.
\<close>

record emoji_pair =
  e_id :: string
  e_emoji :: "nat list"
  e_name :: string
  e_category :: string

definition mk_emoji :: "string \<Rightarrow> nat list \<Rightarrow> string \<Rightarrow> string \<Rightarrow> emoji_pair" where
  "mk_emoji i g n c = \<lparr>e_id = i, e_emoji = g, e_name = n, e_category = c\<rparr>"

definition emojiPairs :: "emoji_pair list" where
  "emojiPairs = [
    mk_emoji ''laughing'' [0x1f602] ''Crying Laugh'' ''classic'',
    mk_emoji ''wink'' [0x1f609] ''Winking Face'' ''classic'',
    mk_emoji ''cool'' [0x1f60e] ''Cool Dude'' ''classic'',
    mk_emoji ''heart_eyes'' [0x1f60d] ''Heart Eyes'' ''love'',
    mk_emoji ''thinking'' [0x1f914] ''Thinking Face'' ''thoughtful'',
    mk_emoji ''upside_down'' [0x1f643] ''Upside Down'' ''silly'',
    mk_emoji ''rolling_eyes'' [0x1f644] ''Eye Roll'' ''sassy'',
    mk_emoji ''zany'' [0x1f92a] ''Zany Face'' ''silly'',
    mk_emoji ''robot'' [0x1f916] ''Robot Face'' ''tech'',
    mk_emoji ''ghost'' [0x1f47b] ''Friendly Ghost'' ''spooky'',
    mk_emoji ''alien'' [0x1f47d] ''Alien Friend'' ''space'',
    mk_emoji ''unicorn'' [0x1f984] ''Magical Unicorn'' ''fantasy'',
    mk_emoji ''pizza'' [0x1f355] ''Pizza Slice'' ''food'',
    mk_emoji ''taco'' [0x1f32e] ''Taco Tuesday'' ''food'',
    mk_emoji ''donut'' [0x1f369] ''Donut Delight'' ''food'',
    mk_emoji ''rainbow'' [0x1f308] ''Rainbow Magic'' ''nature'',
    mk_emoji ''rocket'' [0x1f680] ''Blast Off'' ''space'',
    mk_emoji ''guitar'' [0x1f3b8] ''Rock Star'' ''music'',
    mk_emoji ''sunglasses'' [0x1f576, 0xfe0f] ''Shades'' ''cool'',
    mk_emoji ''party'' [0x1f389] ''Party Time'' ''celebration'',
    mk_emoji ''detective'' [0x1f575, 0xfe0f] ''Detective'' ''mystery'',
    mk_emoji ''ninja'' [0x1f977] ''Stealth Ninja'' ''action'',
    mk_emoji ''pirate'' [0x1f3f4, 0x200d, 0x2620, 0xfe0f] ''Pirate Flag'' ''adventure'',
    mk_emoji ''fire'' [0x1f525] ''On Fire'' ''hot'',
    mk_emoji ''lightning'' [0x26a1] ''Lightning Bolt'' ''energy'',
    mk_emoji ''star'' [0x2b50] ''Superstar'' ''space'',
    mk_emoji ''diamond'' [0x1f48e] ''Precious Diamond'' ''luxury'',
    mk_emoji ''crown'' [0x1f451] ''Royal Crown'' ''luxury'',
    mk_emoji ''trophy'' [0x1f3c6] ''Victory Trophy'' ''achievement'',
    mk_emoji ''magic_wand'' [0x1fa84] ''Magic Wand'' ''fantasy'']"

record difficulty_config =
  cardCount :: nat
  timeLimit :: int
  pointsPerMatch :: int
  bonusTimeThreshold :: int
  bonusPoints :: int
  gridSize :: string

definition easy_config :: difficulty_config where
  "easy_config = \<lparr>cardCount = 16, timeLimit = 300000, pointsPerMatch = 10,
     bonusTimeThreshold = 10000, bonusPoints = 5, gridSize = ''4x4''\<rparr>"

definition medium_config :: difficulty_config where
  "medium_config = \<lparr>cardCount = 20, timeLimit = 480000, pointsPerMatch = 15,
     bonusTimeThreshold = 8000, bonusPoints = 8, gridSize = ''5x4''\<rparr>"

definition hard_config :: difficulty_config where
  "hard_config = \<lparr>cardCount = 24, timeLimit = 600000, pointsPerMatch = 20,
     bonusTimeThreshold = 6000, bonusPoints = 12, gridSize = ''6x4''\<rparr>"

definition expert_config :: difficulty_config where
  "expert_config = \<lparr>cardCount = 30, timeLimit = 900000, pointsPerMatch = 25,
     bonusTimeThreshold = 5000, bonusPoints = 15, gridSize = ''6x5''\<rparr>"

text \<open>
  \<open>gameConfig.difficulties[difficulty]\<close>: the four own keys of the object literal; a
  name that is no property of the object reads \<open>undefined\<close>, here \<open>None\<close>.  Names
  inherited from \<open>Object.prototype\<close> (\<open>constructor\<close>, \<open>toString\<close>, ...) read a
  function in JavaScript, not a tier; they are not modelled.  The request validation
  admits only the four tier names, and every theorem below is about a configured tier.
\<close>

definition difficulties :: "string \<Rightarrow> difficulty_config option" where
  "difficulties d =
     (if d = ''easy'' then Some easy_config
      else if d = ''medium'' then Some medium_config
      else if d = ''hard'' then Some hard_config
      else if d = ''expert'' then Some expert_config
      else None)"

text \<open>\<open>gameConfig.scoring\<close>.\<close>

definition scoring_perfectGameBonus :: int where
  "scoring_perfectGameBonus = 50"

definition scoring_speedBonusMultiplier :: rat where
  "scoring_speedBonusMultiplier = 3 / 2"

definition scoring_streakBonus :: int where
  "scoring_streakBonus = 3"

definition scoring_maxStreakBonus :: int where
  "scoring_maxStreakBonus = 30"

section \<open>Score calculation (GameDataGenerator.calculateScore)\<close>

datatype error = InvalidDifficulty | TypeError | CacheError | DbError | GameNotFound

text \<open>
  The argument object of \<open>calculateScore\<close>.  \<open>difficulty\<close> and
  \<open>consecutiveMatches\<close> have destructuring defaults, so an absent property is
  \<open>None\<close> here.
\<close>

record game_stats =
  gs_matches :: int
  gs_wrongMoves :: int
  gs_timeElapsed :: int
  gs_difficulty :: "string option"
  gs_consecutiveMatches :: "int option"

record score_breakdown =
  baseScore :: int
  b_bonusPoints :: int
  speedBonus :: int
  perfectGameBonus :: int
  streakBonus :: int
  penalties :: int

record score_result =
  totalScore :: int
  breakdown :: score_breakdown

text \<open>
  The body of \<open>calculateScore\<close>, statement by statement.  Reading
  \<open>config.pointsPerMatch\<close> of an unknown difficulty raises a TypeError.  The
  \<open>rating\<close> field of the returned object is computed in floating point from the
  total and is left out of the model.
\<close>

definition stats_difficulty :: "game_stats \<Rightarrow> string" where
  "stats_difficulty gameStats = (case gs_difficulty gameStats of None \<Rightarrow> ''easy'' | Some d \<Rightarrow> d)"

definition stats_consecutiveMatches :: "game_stats \<Rightarrow> int" where
  "stats_consecutiveMatches gameStats =
     (case gs_consecutiveMatches gameStats of None \<Rightarrow> 0 | Some c \<Rightarrow> c)"

definition calculateScore :: "game_stats \<Rightarrow> error + score_result" where
  "calculateScore gameStats =
     (let difficulty = stats_difficulty gameStats;
          consecutiveMatches = stats_consecutiveMatches gameStats
      in case difficulties difficulty of
           None \<Rightarrow> Inl TypeError
         | Some config \<Rightarrow>
            (let base = gs_matches gameStats * pointsPerMatch config;
                 total1 = 0 + base;
                 speed = (if of_int (gs_timeElapsed gameStats) < of_int (timeLimit config) * (1 / 2 :: rat)
                          then \<lfloor>of_int base * scoring_speedBonusMultiplier\<rfloor> else 0);
                 total2 = total1 + speed;
                 perfect = (if gs_wrongMoves gameStats = 0 then scoring_perfectGameBonus else 0);
                 total3 = total2 + perfect;
                 streak = (if consecutiveMatches \<ge> 3
                           then min (consecutiveMatches * scoring_streakBonus) scoring_maxStreakBonus
                           else 0);
                 total4 = total3 + streak;
                 pen = max 0 (gs_wrongMoves gameStats - 2) * 2;
                 total5 = total4 - pen
             in Inr \<lparr>totalScore = max 0 total5,
                     breakdown = \<lparr>baseScore = base, b_bonusPoints = 0, speedBonus = speed,
                                   perfectGameBonus = perfect, streakBonus = streak,
                                   penalties = pen\<rparr>\<rparr>))"

section \<open>Deck generation (GameDataGenerator.generateCardSet, shuffleArray)\<close>

record game_card =
  card_id :: string
  pairId :: string
  emoji :: "nat list"
  card_name :: string
  category :: string
  isFlipped :: bool
  isMatched :: bool
  position :: "nat option"

text \<open>
  \<open>shuffleArray\<close> copies its argument and runs the Fisher-Yates loop from the last
  index down to 1.  \<open>Math.random\<close> is a parameter: \<open>rnd i\<close> is the draw made at loop
  index \<open>i\<close>, and its residue modulo \<open>i + 1\<close> stands for
  \<open>Math.floor(Math.random() * (i + 1))\<close>, so that each of the indices \<open>0 .. i\<close>
  is a possible \<open>j\<close>.  The destructuring swap reads both cells before it writes.
\<close>

fun shuffle_loop :: "(nat \<Rightarrow> nat) \<Rightarrow> nat \<Rightarrow> 'a list \<Rightarrow> 'a list" where
  "shuffle_loop rnd 0 shuffled = shuffled"
| "shuffle_loop rnd (Suc k) shuffled =
     (let i = Suc k;
          j = rnd i mod (i + 1)
      in shuffle_loop rnd k (shuffled[i := shuffled ! j, j := shuffled ! i]))"

definition shuffleArray :: "(nat \<Rightarrow> nat) \<Rightarrow> 'a list \<Rightarrow> 'a list" where
  "shuffleArray rnd array = shuffle_loop rnd (length array - 1) array"

definition make_card :: "emoji_pair \<Rightarrow> string \<Rightarrow> game_card" where
  "make_card e sfx =
     \<lparr>card_id = e_id e @ sfx, pairId = e_id e, emoji = e_emoji e, card_name = e_name e,
      category = e_category e, isFlipped = False, isMatched = False, position = None\<rparr>"

text \<open>
  The two \<open>forEach\<close> loops of \<open>generateCardSet\<close>: two cards pushed for each
  selected emoji, and the position of each shuffled card set to its index.
\<close>

definition pair_cards :: "emoji_pair list \<Rightarrow> game_card list" where
  "pair_cards es = concat (map (\<lambda>e. [make_card e ''_1'', make_card e ''_2'']) es)"

definition assign_positions :: "game_card list \<Rightarrow> game_card list" where
  "assign_positions cs = map (\<lambda>(index, c). c\<lparr>position := Some index\<rparr>) (enumerate 0 cs)"

text \<open>
  \<open>generateCardSet\<close> with the random draws of its two shuffles as parameters.  \<open>categories\<close>
  is \<open>null\<close> or an array; an unknown difficulty raises.
\<close>

definition generateCardSet ::
    "(nat \<Rightarrow> nat) \<Rightarrow> (nat \<Rightarrow> nat) \<Rightarrow> string \<Rightarrow> string list option \<Rightarrow> error + game_card list" where
  "generateCardSet rnd1 rnd2 difficulty categories =
     (case difficulties difficulty of
        None \<Rightarrow> Inl InvalidDifficulty
      | Some config \<Rightarrow>
         (let pairCount = cardCount config div 2;
              filtered = (case categories of
                            None \<Rightarrow> emojiPairs
                          | Some cs \<Rightarrow>
                              if length cs > 0
                              then filter (\<lambda>e. e_category e \<in> set cs) emojiPairs
                              else emojiPairs);
              availableEmojis = (if length filtered < pairCount then emojiPairs else filtered);
              selectedEmojis = take pairCount (shuffleArray rnd1 availableEmojis);
              cards = pair_cards selectedEmojis;
              shuffledCards = shuffleArray rnd2 cards
          in Inr (assign_positions shuffledCards)))"

section \<open>Session state, cache and persistent store\<close>

record match_event =
  card1Id :: string
  card2Id :: string
  matchTime :: int
  pointsEarned :: int
  m_bonusPoints :: int
  timestamp :: int

record game_session =
  gameId :: string
  userId :: string
  username :: string
  difficulty :: string
  cards :: "game_card list"
  startTime :: int
  matches :: "match_event list"
  score :: int
  moves :: int
  isCompleted :: bool
  finalScore :: "int option"
  completedAt :: "int option"

text \<open>Rows of the tables \<open>users\<close>, \<open>games\<close> and \<open>game_matches\<close> (combined-init.sql).\<close>

record user_row =
  u_id :: string
  u_username :: string
  u_display_name :: string
  last_played :: "int option"
  total_games :: int
  total_score :: int
  best_score :: int
  best_time :: "int option"

record game_row =
  g_user_id :: string
  g_username :: string
  g_score :: int
  g_moves :: int
  time_elapsed :: int
  cards_matched :: int
  difficulty_level :: string
  game_completed :: bool
  started_at :: int
  completed_at :: "int option"

record match_row =
  game_id :: string
  card1_id :: string
  card2_id :: string
  match_time :: int
  points_earned :: int
  bonus_points :: int

text \<open>
  The two stores.  In Redis: the sessions under \<open>game:session:<id>\<close>, the counters
  (\<open>analytics:daily_games:...\<close>, \<open>activity:...\<close>; an absent counter reads 0) and the
  other keys present (\<open>user:stats:<name>\<close>, \<open>leaderboard:top\<close>).  In Postgres: the
  three tables, \<open>games\<close> by primary key.
\<close>

record world =
  cache :: "string \<rightharpoonup> game_session"
  counters :: "string \<Rightarrow> nat"
  other_keys :: "string set"
  users :: "user_row list"
  games :: "string \<rightharpoonup> game_row"
  game_matches :: "match_row list"

text \<open>
  Reading a session through the connection-ensuring proxy: a failed connection raises
  before \<open>get\<close> runs, an error inside \<open>get\<close> is caught there and reads as \<open>null\<close>.
\<close>

datatype read_outcome = ReadOk | ReadFails | ConnectFails

definition getCachedGameSession ::
    "read_outcome \<Rightarrow> string \<Rightarrow> world \<Rightarrow> error + game_session option" where
  "getCachedGameSession outcome gid w =
     (case outcome of
        ConnectFails \<Rightarrow> Inl CacheError
      | ReadFails \<Rightarrow> Inr None
      | ReadOk \<Rightarrow> Inr (cache w gid))"

text \<open>Writes raise when they fail; \<open>ok\<close> says whether this one succeeds.\<close>

definition cacheGameSession :: "bool \<Rightarrow> string \<Rightarrow> game_session \<Rightarrow> world \<Rightarrow> error + world" where
  "cacheGameSession ok gid gameData w =
     (if ok then Inr (w\<lparr>cache := (cache w)(gid \<mapsto> gameData)\<rparr>) else Inl CacheError)"

definition del :: "bool \<Rightarrow> string \<Rightarrow> world \<Rightarrow> error + world" where
  "del ok key w = (if ok then Inr (w\<lparr>other_keys := other_keys w - {key}\<rparr>) else Inl CacheError)"

definition incr :: "string \<Rightarrow> world \<Rightarrow> world" where
  "incr key w = w\<lparr>counters := (counters w)(key := counters w key + 1)\<rparr>"

definition incrementDailyGames :: "bool \<Rightarrow> string \<Rightarrow> world \<Rightarrow> error + world" where
  "incrementDailyGames ok dateKey w =
     (if ok then Inr (incr (''analytics:daily_games:'' @ dateKey) w) else Inl CacheError)"

definition trackUserActivity :: "bool \<Rightarrow> string \<Rightarrow> string \<Rightarrow> string \<Rightarrow> world \<Rightarrow> error + world" where
  "trackUserActivity ok hour uname action w =
     (if ok then Inr (incr (''activity:'' @ uname @ '':'' @ action @ '':'' @ hour) w)
      else Inl CacheError)"

text \<open>
  The queries of models/database.js.  A query that fails after its retries raises
  (\<open>ok = False\<close>); generated UUIDs and the clock come from the caller's environment.
\<close>

definition createOrGetUser ::
    "bool \<Rightarrow> bool \<Rightarrow> string \<Rightarrow> string \<Rightarrow> world \<Rightarrow> error + (user_row \<times> world)" where
  "createOrGetUser select_ok insert_ok new_id uname w =
     (if \<not> select_ok then Inl DbError
      else case find (\<lambda>u. u_username u = uname) (users w) of
             Some existing \<Rightarrow> Inr (existing, w)
           | None \<Rightarrow>
               if \<not> insert_ok \<or> new_id \<in> set (map u_id (users w)) then Inl DbError
               else (let newUser = \<lparr>u_id = new_id, u_username = uname, u_display_name = uname,
                                      last_played = None, total_games = 0, total_score = 0,
                                      best_score = 0, best_time = None\<rparr>
                     in Inr (newUser, w\<lparr>users := users w @ [newUser]\<rparr>)))"

definition createGame ::
    "bool \<Rightarrow> string \<Rightarrow> int \<Rightarrow> string \<Rightarrow> string \<Rightarrow> string \<Rightarrow> world \<Rightarrow> error + (string \<times> game_row \<times> world)" where
  "createGame ok new_id now uid uname dif w =
     (if \<not> ok \<or> new_id \<in> dom (games w) then Inl DbError
      else (let game = \<lparr>g_user_id = uid, g_username = uname, g_score = 0, g_moves = 0,
                          time_elapsed = 0, cards_matched = 0, difficulty_level = dif,
                          game_completed = False, started_at = now, completed_at = None\<rparr>
            in Inr (new_id, game, w\<lparr>games := (games w)(new_id \<mapsto> game)\<rparr>)))"

text \<open>
  \<open>completeGame\<close> updates the row and raises when no row was updated.  The trigger
  \<open>update_user_stats\<close> runs with the update when the row turns completed.
\<close>

definition update_user_stats :: "game_row \<Rightarrow> game_row \<Rightarrow> user_row list \<Rightarrow> user_row list" where
  "update_user_stats old new us =
     (if game_completed new \<and> \<not> game_completed old
      then map (\<lambda>u. if u_id u = g_user_id new
                      then u\<lparr>total_games := total_games u + 1,
                             total_score := total_score u + g_score new,
                             best_score := max (best_score u) (g_score new),
                             best_time := (case best_time u of
                                             None \<Rightarrow> Some (time_elapsed new)
                                           | Some b \<Rightarrow> if time_elapsed new < b
                                                        then Some (time_elapsed new) else Some b),
                             last_played := completed_at new\<rparr>
                      else u) us
      else us)"

definition completeGame ::
    "bool \<Rightarrow> int \<Rightarrow> string \<Rightarrow> int \<Rightarrow> int \<Rightarrow> int \<Rightarrow> int \<Rightarrow> world \<Rightarrow> error + (game_row \<times> world)" where
  "completeGame ok now gid sc mv timeElapsed cardsMatched w =
     (if \<not> ok then Inl DbError
      else case games w gid of
             None \<Rightarrow> Inl GameNotFound
           | Some old \<Rightarrow>
              (let new = old\<lparr>g_score := sc, g_moves := mv, time_elapsed := timeElapsed,
                              cards_matched := cardsMatched, game_completed := True,
                              completed_at := Some now\<rparr>
               in Inr (new, w\<lparr>games := (games w)(gid \<mapsto> new),
                               users := update_user_stats old new (users w)\<rparr>)))"

text \<open>\<open>recordMatch\<close> inserts a row that references the game's row.\<close>

definition recordMatch ::
    "bool \<Rightarrow> string \<Rightarrow> string \<Rightarrow> string \<Rightarrow> int \<Rightarrow> int \<Rightarrow> int \<Rightarrow> world \<Rightarrow> error + world" where
  "recordMatch ok gid c1 c2 mt points bonus w =
     (if \<not> ok \<or> gid \<notin> dom (games w) then Inl DbError
      else Inr (w\<lparr>game_matches := game_matches w @
                     [\<lparr>game_id = gid, card1_id = c1, card2_id = c2, match_time = mt,
                       points_earned = points, bonus_points = bonus\<rparr>]\<rparr>))"

definition updateLastPlayed :: "bool \<Rightarrow> int \<Rightarrow> string \<Rightarrow> world \<Rightarrow> error + world" where
  "updateLastPlayed ok now uid w =
     (if \<not> ok then Inl DbError
      else Inr (w\<lparr>users := map (\<lambda>u. if u_id u = uid then u\<lparr>last_played := Some now\<rparr> else u)
                                 (users w)\<rparr>))"
section \<open>Request handlers (routes/game.js)\<close>

text \<open>
  A handler is a function of the outcomes of its I/O (an environment record), the
  validated request body and the two stores; it returns the HTTP response, the warnings
  written by \<open>console.warn\<close>, and the stores afterwards.  Response texts chosen at
  random, the rating, the accuracy and the achievements are presentation only and are not
  part of the modelled bodies.
\<close>

record card_view =
  v_id :: string
  v_position :: "nat option"
  v_emoji :: "nat list"
  v_name :: string
  v_category :: string
  v_isFlipped :: bool
  v_isMatched :: bool

record start_body =
  sb_gameId :: string
  sb_difficulty :: string
  sb_cards :: "card_view list"
  sb_config :: "difficulty_config option"
  sb_startTime :: int
  sb_userId :: string
  sb_username :: string
  sb_displayName :: string

record match_detail =
  md_pointsEarned :: int
  md_bonusPoints :: int
  md_isSpeedBonus :: bool
  md_matchTime :: "int option"

record match_body =
  mb_isMatch :: bool
  mb_pointsEarned :: int
  mb_score :: int
  mb_moves :: int
  mb_matchesFound :: nat
  mb_totalPairs :: rat
  mb_isComplete :: bool
  mb_match :: "match_detail option"

record complete_body =
  cb_gameId :: string
  cb_finalScore :: int
  cb_scoreBreakdown :: score_breakdown
  cb_timeElapsed :: int
  cb_totalMoves :: int
  cb_matchesFound :: nat
  cb_difficulty :: string

datatype response =
    ErrorResponse nat string
  | StartResponse start_body
  | MatchResponse match_body
  | CompleteResponse complete_body

type_synonym outcome = "response \<times> string list \<times> world"

subsection \<open>POST /start\<close>

record start_request =
  sr_username :: string
  sr_difficulty :: "string option"
  sr_categories :: "string list option"

record start_env =
  se_selectUser_ok :: bool
  se_insertUser_ok :: bool
  se_newUserId :: string
  se_rnd1 :: "nat \<Rightarrow> nat"
  se_rnd2 :: "nat \<Rightarrow> nat"
  se_insertGame_ok :: bool
  se_newGameId :: string
  se_now :: int
  se_cacheWrite_ok :: bool
  se_dailyGames_ok :: bool
  se_today :: string
  se_track_ok :: bool
  se_hour :: string
  se_updateLastPlayed_ok :: bool

definition start_failed :: "world \<Rightarrow> outcome" where
  "start_failed w = (ErrorResponse 500 ''Failed to start game'', [], w)"

definition new_session ::
    "string \<Rightarrow> user_row \<Rightarrow> string \<Rightarrow> string \<Rightarrow> game_card list \<Rightarrow> int \<Rightarrow> game_session" where
  "new_session gid user uname dif cs now =
     \<lparr>gameId = gid, userId = u_id user, username = uname, difficulty = dif, cards = cs,
      startTime = now, matches = [], score = 0, moves = 0, isCompleted = False,
      finalScore = None, completedAt = None\<rparr>"

definition view_card :: "game_card \<Rightarrow> card_view" where
  "view_card c =
     \<lparr>v_id = card_id c, v_position = position c, v_emoji = emoji c, v_name = card_name c,
      v_category = category c, v_isFlipped = False, v_isMatched = False\<rparr>"

text \<open>
  The handler after the session has been cached: the two analytics calls and the
  last-played update are awaited without a guard, then the response is sent.
\<close>

definition start_finish ::
    "start_env \<Rightarrow> user_row \<Rightarrow> string \<Rightarrow> string \<Rightarrow> game_card list \<Rightarrow> string \<Rightarrow> game_row \<Rightarrow> world \<Rightarrow> outcome" where
  "start_finish env user uname dif cs gid game w3 =
     (case incrementDailyGames (se_dailyGames_ok env) (se_today env) w3 of
        Inl e \<Rightarrow> start_failed w3
      | Inr w4 \<Rightarrow>
     (case trackUserActivity (se_track_ok env) (se_hour env) uname ''game_start'' w4 of
        Inl e \<Rightarrow> start_failed w4
      | Inr w5 \<Rightarrow>
     (case updateLastPlayed (se_updateLastPlayed_ok env) (se_now env) (u_id user) w5 of
        Inl e \<Rightarrow> start_failed w5
      | Inr w6 \<Rightarrow>
          (StartResponse
             \<lparr>sb_gameId = gid, sb_difficulty = dif, sb_cards = map view_card cs,
              sb_config = difficulties dif, sb_startTime = started_at game,
              sb_userId = u_id user, sb_username = u_username user,
              sb_displayName = u_display_name user\<rparr>,
           [], w6))))"

definition start_handler :: "start_env \<Rightarrow> start_request \<Rightarrow> world \<Rightarrow> outcome" where
  "start_handler env req w =
     (let uname = sr_username req;
          dif = (case sr_difficulty req of None \<Rightarrow> ''easy'' | Some d \<Rightarrow> d);
          categories = sr_categories req
      in case createOrGetUser (se_selectUser_ok env) (se_insertUser_ok env) (se_newUserId env) uname w of
           Inl e \<Rightarrow> start_failed w
         | Inr (user, w1) \<Rightarrow>
      (case generateCardSet (se_rnd1 env) (se_rnd2 env) dif categories of
           Inl e \<Rightarrow> start_failed w1
         | Inr cs \<Rightarrow>
      (case createGame (se_insertGame_ok env) (se_newGameId env) (se_now env) (u_id user) uname dif w1 of
           Inl e \<Rightarrow> start_failed w1
         | Inr (gid, game, w2) \<Rightarrow>
      (case cacheGameSession (se_cacheWrite_ok env) gid
              (new_session gid user uname dif cs (se_now env)) w2 of
           Inl e \<Rightarrow> start_failed w2
         | Inr w3 \<Rightarrow> start_finish env user uname dif cs gid game w3))))"

subsection \<open>POST /match\<close>

record match_request =
  mr_gameId :: string
  mr_card1Id :: string
  mr_card2Id :: string
  mr_matchTime :: "int option"

record match_env =
  me_read :: read_outcome
  me_recordMatch_ok :: bool
  me_now :: int
  me_cacheWrite_ok :: bool
  me_track_ok :: bool
  me_hour :: string
  me_metrics_ok :: bool

definition match_failed :: "world \<Rightarrow> outcome" where
  "match_failed w = (ErrorResponse 500 ''Failed to process match'', [], w)"

text \<open>
  \<open>card.isMatched = true\<close> on the object that \<open>find\<close> returned: the first card of
  the deck with that identifier.
\<close>

fun mark_matched :: "string \<Rightarrow> game_card list \<Rightarrow> game_card list" where
  "mark_matched cid [] = []"
| "mark_matched cid (c # cs) =
     (if card_id c = cid then c\<lparr>isMatched := True\<rparr> # cs else c # mark_matched cid cs)"

text \<open>
  The tail of the handler, after the session object has been updated in memory: the
  move counter, the three guarded calls and the response.  \<open>updateGameMetrics\<close> is not
  bound in this module, so in the source the metrics call always raises inside its
  guarded block; \<open>me_metrics_ok\<close> covers both cases.
\<close>

definition match_finish ::
    "match_env \<Rightarrow> match_request \<Rightarrow> game_session \<Rightarrow> bool \<Rightarrow> int \<Rightarrow> int \<Rightarrow> bool \<Rightarrow> world \<Rightarrow> outcome" where
  "match_finish env req gameSession0 isMatch points bonus isSpeedBonus w =
     (let gameSession = gameSession0\<lparr>moves := moves gameSession0 + 1\<rparr>;
          (warn1, w1) = (case cacheGameSession (me_cacheWrite_ok env) (mr_gameId req) gameSession w of
                           Inl e \<Rightarrow> ([''Cache update failed (non-critical)''], w)
                         | Inr w' \<Rightarrow> ([], w'));
          (warn2, w2) = (case trackUserActivity (me_track_ok env) (me_hour env)
                                 (username gameSession) ''match_attempt'' w1 of
                           Inl e \<Rightarrow> ([''Activity tracking failed (non-critical)''], w1)
                         | Inr w' \<Rightarrow> ([], w'));
          warn3 = (if me_metrics_ok env then [] else [''Metrics update failed (non-critical)'']);
          totalPairs = of_nat (length (cards gameSession)) / 2;
          matchedPairs = length (matches gameSession)
      in (MatchResponse
            \<lparr>mb_isMatch = isMatch, mb_pointsEarned = points + bonus, mb_score = score gameSession,
             mb_moves = moves gameSession, mb_matchesFound = matchedPairs,
             mb_totalPairs = totalPairs, mb_isComplete = (of_nat matchedPairs = totalPairs),
             mb_match = (if isMatch
                         then Some \<lparr>md_pointsEarned = points, md_bonusPoints = bonus,
                                    md_isSpeedBonus = isSpeedBonus,
                                    md_matchTime = mr_matchTime req\<rparr>
                         else None)\<rparr>,
          warn1 @ warn2 @ warn3, w2))"

definition match_handler :: "match_env \<Rightarrow> match_request \<Rightarrow> world \<Rightarrow> outcome" where
  "match_handler env req w =
     (case getCachedGameSession (me_read env) (mr_gameId req) w of
        Inl e \<Rightarrow> match_failed w
      | Inr None \<Rightarrow> (ErrorResponse 404 ''Game session not found'', [], w)
      | Inr (Some gameSession) \<Rightarrow>
          if isCompleted gameSession then (ErrorResponse 400 ''Game already completed'', [], w)
          else
            (case (find (\<lambda>c. card_id c = mr_card1Id req) (cards gameSession),
                   find (\<lambda>c. card_id c = mr_card2Id req) (cards gameSession)) of
               (None, _) \<Rightarrow> (ErrorResponse 400 ''Invalid card IDs'', [], w)
             | (Some card1, None) \<Rightarrow> (ErrorResponse 400 ''Invalid card IDs'', [], w)
             | (Some card1, Some card2) \<Rightarrow>
                 if isMatched card1 \<or> isMatched card2
                 then (ErrorResponse 400 ''Cards already matched'', [], w)
                 else if pairId card1 = pairId card2
                 then
                   (case difficulties (difficulty gameSession) of
                      None \<Rightarrow> match_failed w
                    | Some config \<Rightarrow>
                       (let points = pointsPerMatch config;
                            isSpeedBonus = (case mr_matchTime req of
                                              None \<Rightarrow> False
                                            | Some t \<Rightarrow> t \<noteq> 0 \<and> t < bonusTimeThreshold config);
                            bonus = (if isSpeedBonus then bonusPoints config else 0);
                            mt = (case mr_matchTime req of
                                    None \<Rightarrow> 0 | Some t \<Rightarrow> t);
                            cards' = mark_matched (mr_card2Id req)
                                       (mark_matched (mr_card1Id req) (cards gameSession))
                        in case recordMatch (me_recordMatch_ok env) (mr_gameId req)
                                  (mr_card1Id req) (mr_card2Id req) mt points bonus w of
                             Inl e \<Rightarrow> match_failed w
                           | Inr w1 \<Rightarrow>
                               match_finish env req
                                 (gameSession\<lparr>cards := cards',
                                     matches := matches gameSession @
                                       [\<lparr>card1Id = mr_card1Id req, card2Id = mr_card2Id req,
                                         matchTime = mt, pointsEarned = points,
                                         m_bonusPoints = bonus, timestamp = me_now env\<rparr>],
                                     score := score gameSession + (points + bonus)\<rparr>)
                                 True points bonus isSpeedBonus w1))
                 else match_finish env req gameSession False 0 0 False w))"

subsection \<open>POST /complete\<close>

record complete_request =
  cr_gameId :: string
  cr_timeElapsed :: int
  cr_finalScore :: "int option"

record complete_env =
  ce_read :: read_outcome
  ce_completeGame_ok :: bool
  ce_now :: int
  ce_cacheWrite_ok :: bool
  ce_delUserStats_ok :: bool
  ce_delLeaderboard_ok :: bool
  ce_track_ok :: bool
  ce_hour :: string
  ce_metrics_ok :: bool

definition complete_failed :: "world \<Rightarrow> outcome" where
  "complete_failed w = (ErrorResponse 500 ''Failed to complete game'', [], w)"

text \<open>
  \<open>calculateConsecutiveMatches\<close>: the early return, the in-place sort by timestamp
  (stable, as \<open>Array.prototype.sort\<close> is) and the scan that keeps the previous match,
  \<open>maxStreak\<close> and \<open>currentStreak\<close>.
\<close>

fun streak_loop :: "match_event list \<Rightarrow> match_event \<Rightarrow> nat \<Rightarrow> nat \<Rightarrow> nat" where
  "streak_loop [] prev maxStreak currentStreak = maxStreak"
| "streak_loop (m # ms) prev maxStreak currentStreak =
     (let timeDiff = timestamp m - timestamp prev
      in if timeDiff \<le> 30000
         then streak_loop ms m (max maxStreak (currentStreak + 1)) (currentStreak + 1)
         else streak_loop ms m maxStreak 1)"

definition sortedMatches :: "match_event list \<Rightarrow> match_event list" where
  "sortedMatches ms = sort_key timestamp ms"

definition calculateConsecutiveMatches :: "match_event list \<Rightarrow> nat" where
  "calculateConsecutiveMatches ms =
     (if length ms = 0 then 0
      else case sortedMatches ms of
             [] \<Rightarrow> 1
           | first # rest \<Rightarrow> streak_loop rest first 1 1)"

text \<open>The \<open>gameStats\<close> object that the handler builds from the cached session.\<close>

definition gameStats_of :: "game_session \<Rightarrow> int \<Rightarrow> game_stats" where
  "gameStats_of gameSession timeElapsed =
     \<lparr>gs_matches = int (length (matches gameSession)),
      gs_wrongMoves = moves gameSession - int (length (matches gameSession)),
      gs_timeElapsed = timeElapsed,
      gs_difficulty = Some (difficulty gameSession),
      gs_consecutiveMatches = Some (int (calculateConsecutiveMatches (matches gameSession)))\<rparr>"

text \<open>
  The session object after \<open>isCompleted\<close>, \<open>finalScore\<close> and \<open>completedAt\<close>
  have been assigned; its match list was sorted in place by
  \<open>calculateConsecutiveMatches\<close>.
\<close>

definition completed_session :: "complete_env \<Rightarrow> game_session \<Rightarrow> score_result \<Rightarrow> game_session" where
  "completed_session env gameSession scoreBreakdown =
     gameSession\<lparr>matches := sortedMatches (matches gameSession), isCompleted := True,
       finalScore := Some (totalScore scoreBreakdown), completedAt := Some (ce_now env)\<rparr>"

text \<open>
  The handler after the completed session has been cached: the two invalidations and
  the activity tracking are awaited without a guard; only the metrics block has one
  (\<open>updateGameMetrics\<close> is unbound here as well).
\<close>

definition complete_finish ::
    "complete_env \<Rightarrow> complete_request \<Rightarrow> game_session \<Rightarrow> score_result \<Rightarrow> nat \<Rightarrow> world \<Rightarrow> outcome" where
  "complete_finish env req completed scoreBreakdown totalCardsMatched w2 =
     (case del (ce_delUserStats_ok env) (''user:stats:'' @ username completed) w2 of
        Inl e \<Rightarrow> complete_failed w2
      | Inr w3 \<Rightarrow>
     (case del (ce_delLeaderboard_ok env) ''leaderboard:top'' w3 of
        Inl e \<Rightarrow> complete_failed w3
      | Inr w4 \<Rightarrow>
     (case trackUserActivity (ce_track_ok env) (ce_hour env) (username completed)
             ''game_complete'' w4 of
        Inl e \<Rightarrow> complete_failed w4
      | Inr w5 \<Rightarrow>
          (CompleteResponse
             \<lparr>cb_gameId = cr_gameId req, cb_finalScore = totalScore scoreBreakdown,
              cb_scoreBreakdown = breakdown scoreBreakdown,
              cb_timeElapsed = cr_timeElapsed req, cb_totalMoves = moves completed,
              cb_matchesFound = totalCardsMatched, cb_difficulty = difficulty completed\<rparr>,
           (if ce_metrics_ok env then []
            else [''Game completion metrics failed (non-critical)'']),
           w5))))"

definition complete_handler :: "complete_env \<Rightarrow> complete_request \<Rightarrow> world \<Rightarrow> outcome" where
  "complete_handler env req w =
     (case getCachedGameSession (ce_read env) (cr_gameId req) w of
        Inl e \<Rightarrow> complete_failed w
      | Inr None \<Rightarrow> (ErrorResponse 404 ''Game session not found'', [], w)
      | Inr (Some gameSession) \<Rightarrow>
          if isCompleted gameSession then (ErrorResponse 400 ''Game already completed'', [], w)
          else
            (case calculateScore (gameStats_of gameSession (cr_timeElapsed req)) of
               Inl e \<Rightarrow> complete_failed w
             | Inr scoreBreakdown \<Rightarrow>
            (let totalCardsMatched = length (matches gameSession)
             in case completeGame (ce_completeGame_ok env) (ce_now env) (cr_gameId req)
                       (totalScore scoreBreakdown) (moves gameSession) (cr_timeElapsed req)
                       (int totalCardsMatched) w of
               Inl e \<Rightarrow> complete_failed w
             | Inr (completedGame, w1) \<Rightarrow>
            (let completed = completed_session env gameSession scoreBreakdown
             in case cacheGameSession (ce_cacheWrite_ok env) (cr_gameId req) completed w1 of
               Inl e \<Rightarrow> complete_failed w1
             | Inr w2 \<Rightarrow>
                 complete_finish env req completed scoreBreakdown totalCardsMatched w2))))"

subsection \<open>Sequences of requests\<close>

text \<open>
  One request served: any of the three handlers, with any outcomes of its I/O.  The
  reachable stores are those obtained from a store with an empty session cache.
\<close>

inductive step :: "world \<Rightarrow> world \<Rightarrow> bool" where
  step_start: "start_handler env req w = (r, l, w') \<Longrightarrow> step w w'"
| step_match: "match_handler menv mreq w = (r, l, w') \<Longrightarrow> step w w'"
| step_complete: "complete_handler cenv creq w = (r, l, w') \<Longrightarrow> step w w'"

inductive reachable :: "world \<Rightarrow> bool" where
  reachable_init: "cache w = Map.empty \<Longrightarrow> reachable w"
| reachable_step: "reachable w \<Longrightarrow> step w w' \<Longrightarrow> reachable w'"

text \<open>
  The invariant carried along every sequence of requests: a cached session has a row in
  \<open>games\<close> and a configured difficulty, and its move counter is at least the number
  of its recorded matches.
\<close>

definition session_inv :: "world \<Rightarrow> bool" where
  "session_inv w \<longleftrightarrow>
     dom (cache w) \<subseteq> dom (games w)
     \<and> (\<forall>gid s. cache w gid = Some s \<longrightarrow>
           int (length (matches s)) \<le> moves s \<and> difficulties (difficulty s) \<noteq> None)"

section \<open>The streak as the specification words it\<close>

text \<open>
  The specification's streak: the longest run of the recorded matches, ordered by
  timestamp, in which every match is within 30000 ms of the one before it in the run.  A
  run is a contiguous stretch of the ordered list.
\<close>

definition within_gap :: "match_event \<Rightarrow> match_event \<Rightarrow> bool" where
  "within_gap a b = (\<bar>timestamp b - timestamp a\<bar> \<le> 30000)"

definition is_run :: "match_event list \<Rightarrow> bool" where
  "is_run seg = successively within_gap seg"

definition spec_longest_run :: "match_event list \<Rightarrow> nat" where
  "spec_longest_run ms =
     Max (set (map length (filter is_run (sublists (sort_key timestamp ms)))))"

text \<open>
  \<open>n\<close> is the length of a longest run among the parts of \<open>xs\<close> (its contiguous
  sublists, or its suffixes) whose neighbours are all related by \<open>G\<close>.
\<close>

definition longest_run_of ::
    "('a \<Rightarrow> 'a \<Rightarrow> bool) \<Rightarrow> ('a list \<Rightarrow> 'a list \<Rightarrow> bool) \<Rightarrow> nat \<Rightarrow> 'a list \<Rightarrow> bool" where
  "longest_run_of G part n xs =
     ((\<exists>s. part s xs \<and> successively G s \<and> length s = n)
      \<and> (\<forall>s. part s xs \<and> successively G s \<longrightarrow> length s \<le> n))"

section \<open>Sample requests and stores\<close>

text \<open>
  Concrete data for the closed instances of the theorems below: an empty store, the
  requests of the validation examples, environments in which every I/O call succeeds,
  and a store holding one cached session over a four-card deck.
\<close>

definition empty_world :: world where
  "empty_world =
     \<lparr>cache = Map.empty, counters = (\<lambda>k. 0), other_keys = {}, users = [],
      games = Map.empty, game_matches = []\<rparr>"

definition sample_gameId :: string where
  "sample_gameId = ''550e8400-e29b-41d4-a716-446655440000''"

definition sample_start_request :: start_request where
  "sample_start_request =
     \<lparr>sr_username = ''player123'', sr_difficulty = Some ''easy'',
      sr_categories = Some [''classic'', ''food'']\<rparr>"

definition sample_start_env :: start_env where
  "sample_start_env =
     \<lparr>se_selectUser_ok = True, se_insertUser_ok = True,
      se_newUserId = ''6ba7b810-9dad-41d1-80b4-00c04fd430c8'',
      se_rnd1 = (\<lambda>i. 0), se_rnd2 = (\<lambda>i. i div 2),
      se_insertGame_ok = True, se_newGameId = sample_gameId, se_now = 1700000000000,
      se_cacheWrite_ok = True, se_dailyGames_ok = True, se_today = ''2023-11-14'',
      se_track_ok = True, se_hour = ''2023-11-14T22'', se_updateLastPlayed_ok = True\<rparr>"

definition started_world :: world where
  "started_world = snd (snd (start_handler sample_start_env sample_start_request empty_world))"

definition sample_match_env :: match_env where
  "sample_match_env =
     \<lparr>me_read = ReadOk, me_recordMatch_ok = True, me_now = 1700000005000,
      me_cacheWrite_ok = True, me_track_ok = True, me_hour = ''2023-11-14T22'',
      me_metrics_ok = False\<rparr>"

definition sample_match_request :: "string \<Rightarrow> string \<Rightarrow> match_request" where
  "sample_match_request c1 c2 =
     \<lparr>mr_gameId = sample_gameId, mr_card1Id = c1, mr_card2Id = c2, mr_matchTime = Some 5000\<rparr>"

definition sample_complete_env :: complete_env where
  "sample_complete_env =
     \<lparr>ce_read = ReadOk, ce_completeGame_ok = True, ce_now = 1700000120000,
      ce_cacheWrite_ok = True, ce_delUserStats_ok = True, ce_delLeaderboard_ok = True,
      ce_track_ok = True, ce_hour = ''2023-11-14T22'', ce_metrics_ok = False\<rparr>"

definition sample_complete_request :: complete_request where
  "sample_complete_request =
     \<lparr>cr_gameId = sample_gameId, cr_timeElapsed = 120000, cr_finalScore = Some 180\<rparr>"

definition sample_user :: user_row where
  "sample_user =
     \<lparr>u_id = ''6ba7b810-9dad-41d1-80b4-00c04fd430c8'', u_username = ''player123'',
      u_display_name = ''player123'', last_played = None, total_games = 0, total_score = 0,
      best_score = 0, best_time = None\<rparr>"

definition sample_row :: game_row where
  "sample_row =
     \<lparr>g_user_id = ''6ba7b810-9dad-41d1-80b4-00c04fd430c8'', g_username = ''player123'',
      g_score = 0, g_moves = 0, time_elapsed = 0, cards_matched = 0,
      difficulty_level = ''easy'', game_completed = False, started_at = 1700000000000,
      completed_at = None\<rparr>"

definition sample_deck :: "game_card list" where
  "sample_deck =
     assign_positions
       (pair_cards [mk_emoji ''laughing'' [0x1f602] ''Crying Laugh'' ''classic'',
                    mk_emoji ''wink'' [0x1f609] ''Winking Face'' ''classic''])"

definition sample_match :: "int \<Rightarrow> match_event" where
  "sample_match t =
     \<lparr>card1Id = ''laughing_1'', card2Id = ''laughing_2'', matchTime = 5000,
      pointsEarned = 10, m_bonusPoints = 5, timestamp = t\<rparr>"

definition sample_session :: game_session where
  "sample_session =
     \<lparr>gameId = sample_gameId, userId = ''6ba7b810-9dad-41d1-80b4-00c04fd430c8'',
      username = ''player123'', difficulty = ''easy'', cards = sample_deck,
      startTime = 1700000000000, matches = [], score = 0, moves = 0, isCompleted = False,
      finalScore = None, completedAt = None\<rparr>"

text \<open>The same session after the pair \<open>laughing\<close> has been matched in one move.\<close>

definition matched_session :: game_session where
  "matched_session =
     sample_session\<lparr>cards := mark_matched ''laughing_2'' (mark_matched ''laughing_1'' sample_deck),
                    matches := [sample_match 1700000005000], score := 15, moves := 1\<rparr>"

definition sample_world :: "game_session \<Rightarrow> world" where
  "sample_world s =
     \<lparr>cache = [sample_gameId \<mapsto> s], counters = (\<lambda>k. 0), other_keys = {},
      users = [sample_user], games = [sample_gameId \<mapsto> sample_row], game_matches = []\<rparr>"

text \<open>A session with five recorded matches, out of timestamp order, and seven moves.\<close>

definition streak_session :: game_session where
  "streak_session =
     sample_session\<lparr>matches := [sample_match 50000, sample_match 0, sample_match 60000,
                                  sample_match 200000, sample_match 70000],
                    score := 75, moves := 7\<rparr>"

text \<open>The store after the sample session has been started, completed, and then sent a
  further match request.\<close>

definition completed_world :: world where
  "completed_world =
     snd (snd (complete_handler sample_complete_env sample_complete_request started_world))"

definition later_world :: world where
  "later_world =
     snd (snd (match_handler sample_match_env (sample_match_request ''laughing_1'' ''laughing_2'')
                 completed_world))"


section \<open>Properties of the score calculation\<close>

lemma floor_three_halves: "\<lfloor>of_int b * (3 / 2 :: rat)\<rfloor> = (3 * b) div 2"
  by linarith

lemma half_limit: "(of_int t < of_int l * (1 / 2 :: rat)) = (2 * t < l)"
proof -
  have "(of_int t < of_int l * (1 / 2 :: rat)) = ((of_int (2 * t) :: rat) < of_int l)"
    by (simp add: field_simps)
  also have "\<dots> = (2 * t < l)"
    by (rule of_int_less_iff)
  finally show ?thesis .
qed

lemma difficulties_cases:
  assumes "difficulties d = Some config"
  shows "config = easy_config \<or> config = medium_config \<or> config = hard_config
         \<or> config = expert_config"
  using assms by (auto simp: difficulties_def split: if_splits)

lemma calculateScore_known:
  assumes "difficulties (stats_difficulty g) = Some config"
  shows "calculateScore g =
     Inr \<lparr>totalScore =
            max 0 (gs_matches g * pointsPerMatch config
                   + (if of_int (gs_timeElapsed g) < of_int (timeLimit config) * (1 / 2 :: rat)
                      then \<lfloor>of_int (gs_matches g * pointsPerMatch config) * scoring_speedBonusMultiplier\<rfloor>
                      else 0)
                   + (if gs_wrongMoves g = 0 then 50 else 0)
                   + (if stats_consecutiveMatches g \<ge> 3
                      then min (stats_consecutiveMatches g * 3) 30 else 0)
                   - max 0 (gs_wrongMoves g - 2) * 2),
          breakdown =
            \<lparr>baseScore = gs_matches g * pointsPerMatch config,
             b_bonusPoints = 0,
             speedBonus =
               (if of_int (gs_timeElapsed g) < of_int (timeLimit config) * (1 / 2 :: rat)
                then \<lfloor>of_int (gs_matches g * pointsPerMatch config) * scoring_speedBonusMultiplier\<rfloor>
                else 0),
             perfectGameBonus = (if gs_wrongMoves g = 0 then 50 else 0),
             streakBonus = (if stats_consecutiveMatches g \<ge> 3
                            then min (stats_consecutiveMatches g * 3) 30 else 0),
             penalties = max 0 (gs_wrongMoves g - 2) * 2\<rparr>\<rparr>"
  using assms
  by (simp add: calculateScore_def Let_def scoring_perfectGameBonus_def
        scoring_streakBonus_def scoring_maxStreakBonus_def)

text \<open>
  C1.  For every input whose difficulty is a configured tier, \<open>calculateScore\<close> returns
  a total equal to \<open>max 0 (matches * pointsPerMatch + speed bonus + perfect-game bonus +
  streak bonus - penalty)\<close>, where the perfect-game bonus is 50 exactly when there are no
  wrong moves (and absent otherwise), the streak bonus is \<open>min (streak * 3) 30\<close> exactly
  when the streak is at least 3 (and absent otherwise), and the penalty is
  \<open>max 0 (wrongMoves - 2) * 2\<close>; the total is never negative.
\<close>

theorem calculateScore_total:
  assumes "difficulties (stats_difficulty g) = Some config"
  shows "\<exists>r. calculateScore g = Inr r
           \<and> totalScore r =
               max 0 (gs_matches g * pointsPerMatch config + speedBonus (breakdown r)
                      + perfectGameBonus (breakdown r) + streakBonus (breakdown r)
                      - penalties (breakdown r))
           \<and> perfectGameBonus (breakdown r) = (if gs_wrongMoves g = 0 then 50 else 0)
           \<and> streakBonus (breakdown r) =
               (if stats_consecutiveMatches g \<ge> 3
                then min (stats_consecutiveMatches g * 3) 30 else 0)
           \<and> penalties (breakdown r) = max 0 (gs_wrongMoves g - 2) * 2
           \<and> 0 \<le> totalScore r"
  unfolding calculateScore_known [OF assms] by simp

theorem calculateScore_total_witness:
  "difficulties (stats_difficulty
       \<lparr>gs_matches = 8, gs_wrongMoves = 0, gs_timeElapsed = 200000,
        gs_difficulty = Some ''easy'', gs_consecutiveMatches = Some 4\<rparr>) = Some easy_config
   \<and> calculateScore
       \<lparr>gs_matches = 8, gs_wrongMoves = 0, gs_timeElapsed = 200000,
        gs_difficulty = Some ''easy'', gs_consecutiveMatches = Some 4\<rparr>
     = Inr \<lparr>totalScore = 142,
            breakdown = \<lparr>baseScore = 80, b_bonusPoints = 0, speedBonus = 0,
                          perfectGameBonus = 50, streakBonus = 12, penalties = 0\<rparr>\<rparr>"
proof -
  let ?g = "\<lparr>gs_matches = 8, gs_wrongMoves = 0, gs_timeElapsed = 200000,
             gs_difficulty = Some ''easy'', gs_consecutiveMatches = Some 4\<rparr>"
  have h: "difficulties (stats_difficulty ?g) = Some easy_config"
    by (simp add: stats_difficulty_def difficulties_def)
  from calculateScore_total [OF h] obtain r where
    r: "calculateScore ?g = Inr r"
       "totalScore r = max 0 (gs_matches ?g * pointsPerMatch easy_config + speedBonus (breakdown r)
                      + perfectGameBonus (breakdown r) + streakBonus (breakdown r)
                      - penalties (breakdown r))"
    by blast
  have "calculateScore ?g = Inr \<lparr>totalScore = 142,
            breakdown = \<lparr>baseScore = 80, b_bonusPoints = 0, speedBonus = 0,
                          perfectGameBonus = 50, streakBonus = 12, penalties = 0\<rparr>\<rparr>"
    unfolding calculateScore_known [OF h]
    by (simp add: easy_config_def stats_consecutiveMatches_def)
  with h show ?thesis by simp
qed

text \<open>
  C5 as stated fails: with an odd base score the source adds \<open>Math.floor(base * 1.5)\<close>,
  not \<open>base * 1.5\<close>.  One match on \<open>medium\<close> (15 points) finished within half the
  time limit earns a speed bonus of 22, and the total is 87, where \<open>base * 1.5\<close>
  would be 22.5.
\<close>

theorem speedBonus_counterexample:
  "calculateScore
       \<lparr>gs_matches = 1, gs_wrongMoves = 0, gs_timeElapsed = 1000,
        gs_difficulty = Some ''medium'', gs_consecutiveMatches = Some 0\<rparr>
     = Inr \<lparr>totalScore = 87,
            breakdown = \<lparr>baseScore = 15, b_bonusPoints = 0, speedBonus = 22,
                          perfectGameBonus = 50, streakBonus = 0, penalties = 0\<rparr>\<rparr>
   \<and> (of_int 22 :: rat) \<noteq> of_int 15 * scoring_speedBonusMultiplier"
proof -
  let ?g = "\<lparr>gs_matches = 1, gs_wrongMoves = 0, gs_timeElapsed = 1000,
             gs_difficulty = Some ''medium'', gs_consecutiveMatches = Some 0\<rparr>"
  have h: "difficulties (stats_difficulty ?g) = Some medium_config"
    by (simp add: stats_difficulty_def difficulties_def)
  have "\<lfloor>rat_of_int 15 * (3 / 2)\<rfloor> = 22"
    unfolding floor_three_halves by simp
  then show ?thesis
    unfolding calculateScore_known [OF h]
    by (simp add: medium_config_def stats_consecutiveMatches_def scoring_speedBonusMultiplier_def)
qed

text \<open>
  C5, amended.  The speed bonus is included exactly when
  \<open>elapsedMs < timeLimit * 0.5\<close>; when included it is \<open>floor (base * 1.5)\<close>, the
  product rounded down to an integer (for integers, \<open>3 * base div 2\<close>), and that amount
  is what enters the total before the final clamp at 0.
\<close>

theorem calculateScore_speedBonus:
  assumes "difficulties (stats_difficulty g) = Some config"
  shows "\<exists>r. calculateScore g = Inr r
           \<and> speedBonus (breakdown r) =
               (if of_int (gs_timeElapsed g) < of_int (timeLimit config) * (1 / 2 :: rat)
                then \<lfloor>of_int (gs_matches g * pointsPerMatch config) * scoring_speedBonusMultiplier\<rfloor>
                else 0)
           \<and> speedBonus (breakdown r) =
               (if 2 * gs_timeElapsed g < timeLimit config
                then 3 * (gs_matches g * pointsPerMatch config) div 2 else 0)
           \<and> totalScore r =
               max 0 (baseScore (breakdown r) + speedBonus (breakdown r)
                      + perfectGameBonus (breakdown r) + streakBonus (breakdown r)
                      - penalties (breakdown r))
           \<and> baseScore (breakdown r) = gs_matches g * pointsPerMatch config"
  unfolding calculateScore_known [OF assms] scoring_speedBonusMultiplier_def
    floor_three_halves half_limit
  by simp

theorem calculateScore_speedBonus_witness:
  "difficulties (stats_difficulty
       \<lparr>gs_matches = 3, gs_wrongMoves = 1, gs_timeElapsed = 100000,
        gs_difficulty = Some ''medium'', gs_consecutiveMatches = Some 0\<rparr>) = Some medium_config
   \<and> (\<exists>r. calculateScore
       \<lparr>gs_matches = 3, gs_wrongMoves = 1, gs_timeElapsed = 100000,
        gs_difficulty = Some ''medium'', gs_consecutiveMatches = Some 0\<rparr> = Inr r
        \<and> speedBonus (breakdown r) = 67 \<and> totalScore r = 112)"
proof -
  let ?g = "\<lparr>gs_matches = 3, gs_wrongMoves = 1, gs_timeElapsed = 100000,
             gs_difficulty = Some ''medium'', gs_consecutiveMatches = Some 0\<rparr>"
  have h: "difficulties (stats_difficulty ?g) = Some medium_config"
    by (simp add: stats_difficulty_def difficulties_def)
  from calculateScore_speedBonus [OF h] obtain r where
    r: "calculateScore ?g = Inr r"
       "speedBonus (breakdown r) =
               (if 2 * gs_timeElapsed ?g < timeLimit medium_config
                then 3 * (gs_matches ?g * pointsPerMatch medium_config) div 2 else 0)"
       "totalScore r =
               max 0 (baseScore (breakdown r) + speedBonus (breakdown r)
                      + perfectGameBonus (breakdown r) + streakBonus (breakdown r)
                      - penalties (breakdown r))"
    by blast
  from r(1) have "breakdown r = breakdown (projr (calculateScore ?g))" by simp
  then have b: "perfectGameBonus (breakdown r) = 0" "streakBonus (breakdown r) = 0"
       "penalties (breakdown r) = 0" "baseScore (breakdown r) = 45"
    unfolding calculateScore_known [OF h]
    by (simp_all add: medium_config_def stats_consecutiveMatches_def)
  from r(2) have s: "speedBonus (breakdown r) = 67"
    by (simp add: medium_config_def)
  from r(3) b s have "totalScore r = 112" by simp
  with h r(1) s show ?thesis by blast
qed

section \<open>Properties of the generated deck\<close>

lemma shuffle_loop_mset:
  "k \<le> length xs - 1 \<Longrightarrow> mset (shuffle_loop rnd k xs) = mset xs"
proof (induction k arbitrary: xs)
  case 0
  show ?case by simp
next
  case (Suc k)
  let ?j = "rnd (Suc k) mod (Suc k + 1)"
  from Suc.prems have i: "Suc k < length xs" by simp
  have "?j < Suc k + 1" by (rule mod_less_divisor) simp
  with i have j: "?j < length xs" by linarith
  let ?ys = "xs[Suc k := xs ! ?j, ?j := xs ! Suc k]"
  have "mset ?ys = mset xs" using j i by (rule mset_swap)
  moreover have "k \<le> length ?ys - 1" using i by simp
  ultimately show ?case using Suc.IH[of ?ys] by (simp add: Let_def)
qed

lemma shuffleArray_mset: "mset (shuffleArray rnd xs) = mset xs"
  unfolding shuffleArray_def by (rule shuffle_loop_mset) simp

lemma shuffleArray_length: "length (shuffleArray rnd xs) = length xs"
  using shuffleArray_mset[of rnd xs] by (rule mset_eq_length)

lemma shuffleArray_set: "set (shuffleArray rnd xs) = set xs"
  using shuffleArray_mset[of rnd xs] by (rule mset_eq_setD)

lemma emojiPairs_length: "length emojiPairs = 30"
  by (simp add: emojiPairs_def)

lemma emojiPairs_distinct: "distinct (map e_id emojiPairs)"
  by (simp add: emojiPairs_def mk_emoji_def)

lemma pair_cards_length: "length (pair_cards es) = 2 * length es"
  by (induction es) (simp_all add: pair_cards_def)

lemma pair_cards_flags: "c \<in> set (pair_cards es) \<Longrightarrow> \<not> isFlipped c \<and> \<not> isMatched c"
  by (auto simp: pair_cards_def make_card_def)

lemma pair_cards_pairIds: "pairId ` set (pair_cards es) = e_id ` set es"
  by (auto simp: pair_cards_def make_card_def image_iff)

lemma pair_cards_count:
  "distinct (map e_id es) \<Longrightarrow> p \<in> e_id ` set es \<Longrightarrow>
     length (filter (\<lambda>c. pairId c = p) (pair_cards es)) = 2"
proof (induction es)
  case Nil
  then show ?case by simp
next
  case (Cons e es)
  have split: "pair_cards (e # es) = [make_card e ''_1'', make_card e ''_2''] @ pair_cards es"
    by (simp add: pair_cards_def)
  show ?case
  proof (cases "e_id e = p")
    case True
    with Cons.prems have "p \<notin> e_id ` set es" by auto
    then have "p \<notin> pairId ` set (pair_cards es)" by (simp add: pair_cards_pairIds)
    then have "filter (\<lambda>c. pairId c = p) (pair_cards es) = []"
      by (auto simp: filter_empty_conv)
    with True show ?thesis by (simp add: split make_card_def)
  next
    case False
    with Cons.prems have "p \<in> e_id ` set es" "distinct (map e_id es)" by auto
    with Cons.IH have "length (filter (\<lambda>c. pairId c = p) (pair_cards es)) = 2" by simp
    with False show ?thesis by (simp add: split make_card_def)
  qed
qed

lemma filter_length_mset:
  "mset xs = mset ys \<Longrightarrow> length (filter P xs) = length (filter P ys)"
proof -
  assume "mset xs = mset ys"
  then have "mset (filter P xs) = mset (filter P ys)" by simp
  then show ?thesis by (rule mset_eq_length)
qed

lemma assign_positions_length: "length (assign_positions xs) = length xs"
  by (simp add: assign_positions_def)

lemma set_positions_position:
  "map position (map (\<lambda>(index, c). c\<lparr>position := Some index\<rparr>) (enumerate n xs))
     = map Some [n..<n + length xs]"
  by (induction xs arbitrary: n) (simp_all add: upt_rec)

lemma set_positions_pairId:
  "map pairId (map (\<lambda>(index, c). c\<lparr>position := Some index\<rparr>) (enumerate n xs))
     = map pairId xs"
  by (induction xs arbitrary: n) simp_all

lemma set_positions_flags:
  "map (\<lambda>c. (isFlipped c, isMatched c))
       (map (\<lambda>(index, c). c\<lparr>position := Some index\<rparr>) (enumerate n xs))
     = map (\<lambda>c. (isFlipped c, isMatched c)) xs"
  by (induction xs arbitrary: n) simp_all

lemma assign_positions_position:
  "map position (assign_positions xs) = map Some [0..<length xs]"
  unfolding assign_positions_def set_positions_position by simp

lemma assign_positions_pairId: "map pairId (assign_positions xs) = map pairId xs"
  unfolding assign_positions_def by (rule set_positions_pairId)

lemma assign_positions_flags:
  "map (\<lambda>c. (isFlipped c, isMatched c)) (assign_positions xs)
     = map (\<lambda>c. (isFlipped c, isMatched c)) xs"
  unfolding assign_positions_def by (rule set_positions_flags)

lemma filter_pairId_map:
  "length (filter (\<lambda>c. pairId c = p) xs) = length (filter (\<lambda>q. q = p) (map pairId xs))"
  by (induction xs) simp_all

lemma available_props:
  assumes "difficulties d = Some config"
  defines "pairCount \<equiv> cardCount config div 2"
  shows "2 * pairCount = cardCount config" "pairCount \<le> 30"
  using difficulties_cases[OF assms(1)]
  by (auto simp: pairCount_def easy_config_def medium_config_def hard_config_def expert_config_def)

lemma available_emojis:
  fixes categories :: "string list option"
  assumes "difficulties d = Some config"
  defines "pairCount \<equiv> cardCount config div 2"
  defines "filtered \<equiv> (case categories of
                            None \<Rightarrow> emojiPairs
                          | Some cs \<Rightarrow>
                              if length cs > 0
                              then filter (\<lambda>e. e_category e \<in> set cs) emojiPairs
                              else emojiPairs)"
  defines "availableEmojis \<equiv> (if length filtered < pairCount then emojiPairs else filtered)"
  shows "pairCount \<le> length availableEmojis" "distinct (map e_id availableEmojis)"
proof -
  have "pairCount \<le> 30" unfolding pairCount_def by (rule available_props[OF assms(1)])
  then show "pairCount \<le> length availableEmojis"
    by (simp add: availableEmojis_def emojiPairs_length)
  have "distinct (map e_id filtered)"
    unfolding filtered_def
    by (auto split: option.splits intro: distinct_map_filter emojiPairs_distinct)
  then show "distinct (map e_id availableEmojis)"
    by (simp add: availableEmojis_def emojiPairs_distinct)
qed

lemma selected_emojis:
  fixes rnd :: "nat \<Rightarrow> nat"
  assumes "pairCount \<le> length availableEmojis" "distinct (map e_id availableEmojis)"
  defines "selectedEmojis \<equiv> take pairCount (shuffleArray rnd availableEmojis)"
  shows "length selectedEmojis = pairCount" "distinct (map e_id selectedEmojis)"
proof -
  show "length selectedEmojis = pairCount"
    using assms(1) by (simp add: selectedEmojis_def shuffleArray_length)
  have "mset (map e_id (shuffleArray rnd availableEmojis)) = mset (map e_id availableEmojis)"
    by (simp add: shuffleArray_mset)
  then have "distinct (map e_id (shuffleArray rnd availableEmojis))
               = distinct (map e_id availableEmojis)"
    by (rule mset_eq_imp_distinct_iff)
  with assms(2) have "distinct (map e_id (shuffleArray rnd availableEmojis))"
    by simp
  then show "distinct (map e_id selectedEmojis)"
    unfolding selectedEmojis_def take_map [symmetric] by (rule distinct_take)
qed

lemma shuffled_deck:
  fixes rnd :: "nat \<Rightarrow> nat"
  assumes "distinct (map e_id es)"
  defines "deck \<equiv> assign_positions (shuffleArray rnd (pair_cards es))"
  shows "length deck = 2 * length es"
    and "\<forall>p \<in> pairId ` set deck. length (filter (\<lambda>c. pairId c = p) deck) = 2"
    and "\<forall>c \<in> set deck. \<not> isFlipped c \<and> \<not> isMatched c"
    and "map position deck = map Some [0..<2 * length es]"
proof -
  let ?sh = "shuffleArray rnd (pair_cards es)"
  have len: "length ?sh = 2 * length es"
    by (simp add: shuffleArray_length pair_cards_length)
  show "length deck = 2 * length es"
    by (simp add: deck_def assign_positions_length len)
  show "map position deck = map Some [0..<2 * length es]"
    by (simp add: deck_def assign_positions_position len)
  have ids: "map pairId deck = map pairId ?sh"
    by (simp add: deck_def assign_positions_pairId)
  show "\<forall>p \<in> pairId ` set deck. length (filter (\<lambda>c. pairId c = p) deck) = 2"
  proof
    fix p assume "p \<in> pairId ` set deck"
    then have "p \<in> set (map pairId deck)" by simp
    then have "p \<in> pairId ` set ?sh" unfolding ids by simp
    then have p: "p \<in> e_id ` set es"
      by (simp add: shuffleArray_set pair_cards_pairIds)
    have "length (filter (\<lambda>c. pairId c = p) deck)
            = length (filter (\<lambda>q. q = p) (map pairId deck))"
      by (rule filter_pairId_map)
    also have "\<dots> = length (filter (\<lambda>c. pairId c = p) ?sh)"
      unfolding ids by (rule filter_pairId_map [symmetric])
    also have "\<dots> = length (filter (\<lambda>c. pairId c = p) (pair_cards es))"
      by (rule filter_length_mset) (rule shuffleArray_mset)
    also have "\<dots> = 2"
      using assms(1) p by (rule pair_cards_count)
    finally show "length (filter (\<lambda>c. pairId c = p) deck) = 2" .
  qed
  show "\<forall>c \<in> set deck. \<not> isFlipped c \<and> \<not> isMatched c"
  proof
    fix c assume "c \<in> set deck"
    then have "(isFlipped c, isMatched c) \<in> set (map (\<lambda>c. (isFlipped c, isMatched c)) deck)"
      by force
    then have "(isFlipped c, isMatched c) \<in> set (map (\<lambda>c. (isFlipped c, isMatched c)) ?sh)"
      by (simp only: deck_def assign_positions_flags)
    then obtain c' where "c' \<in> set ?sh" "isFlipped c' = isFlipped c" "isMatched c' = isMatched c"
      by auto
    then show "\<not> isFlipped c \<and> \<not> isMatched c"
      using pair_cards_flags[of c' es] by (simp add: shuffleArray_set)
  qed
qed

text \<open>
  C4.  For every configured difficulty, any category filter (also one that leaves fewer
  than \<open>cardCount / 2\<close> templates, where the whole pool is used) and any outcome of the
  two shuffles, \<open>generateCardSet\<close> returns a deck of exactly \<open>cardCount\<close> cards in
  which every pair identifier that occurs is carried by exactly two cards, no card is
  flipped or matched, and the positions are the indices \<open>0 .. cardCount - 1\<close> in order,
  so no two cards share a position.
\<close>

theorem generateCardSet_deck:
  assumes "difficulties d = Some config"
  shows "\<exists>deck. generateCardSet rnd1 rnd2 d categories = Inr deck
           \<and> length deck = cardCount config
           \<and> (\<forall>p \<in> pairId ` set deck. length (filter (\<lambda>c. pairId c = p) deck) = 2)
           \<and> (\<forall>c \<in> set deck. \<not> isFlipped c \<and> \<not> isMatched c)
           \<and> map position deck = map Some [0..<cardCount config]
           \<and> distinct (map position deck)"
proof -
  define pairCount where "pairCount = cardCount config div 2"
  define filtered where "filtered = (case categories of
                            None \<Rightarrow> emojiPairs
                          | Some cs \<Rightarrow>
                              if length cs > 0
                              then filter (\<lambda>e. e_category e \<in> set cs) emojiPairs
                              else emojiPairs)"
  define availableEmojis
    where "availableEmojis = (if length filtered < pairCount then emojiPairs else filtered)"
  define selectedEmojis
    where "selectedEmojis = take pairCount (shuffleArray rnd1 availableEmojis)"
  define deck where "deck = assign_positions (shuffleArray rnd2 (pair_cards selectedEmojis))"
  have run: "generateCardSet rnd1 rnd2 d categories = Inr deck"
    using assms
    by (simp add: generateCardSet_def Let_def deck_def selectedEmojis_def availableEmojis_def
          filtered_def pairCount_def)
  have av: "pairCount \<le> length availableEmojis" "distinct (map e_id availableEmojis)"
    unfolding availableEmojis_def filtered_def pairCount_def
    by (rule available_emojis[OF assms])+
  have sel: "length selectedEmojis = pairCount" "distinct (map e_id selectedEmojis)"
    unfolding selectedEmojis_def by (rule selected_emojis[OF av])+
  have n: "2 * length selectedEmojis = cardCount config"
    unfolding sel(1) pairCount_def by (rule available_props[OF assms])
  have "distinct (map Some [0..<cardCount config])"
    by (simp add: distinct_map)
  with shuffled_deck[OF sel(2), of rnd2] n run show ?thesis
    unfolding deck_def by simp
qed

theorem generateCardSet_deck_witness:
  "difficulties ''easy'' = Some easy_config
   \<and> (\<exists>deck. generateCardSet (\<lambda>i. 0) (\<lambda>i. i) ''easy'' (Some [''food'']) = Inr deck
           \<and> length deck = 16
           \<and> (\<forall>p \<in> pairId ` set deck. length (filter (\<lambda>c. pairId c = p) deck) = 2)
           \<and> (\<forall>c \<in> set deck. \<not> isFlipped c \<and> \<not> isMatched c)
           \<and> map position deck = map Some [0..<16]
           \<and> distinct (map position deck))"
proof -
  have h: "difficulties ''easy'' = Some easy_config" by (simp add: difficulties_def)
  have c: "cardCount easy_config = 16" by (simp add: easy_config_def)
  from generateCardSet_deck [OF h, of "\<lambda>i. 0" "\<lambda>i. i" "Some [''food'']"] h
  show ?thesis unfolding c by simp
qed


section \<open>The streak computed at completion\<close>

lemma sorted_sublist:
  assumes "sorted (map f xs)" "sublist s xs"
  shows "sorted (map f s)"
proof -
  from assms(2) obtain ps ss where "xs = ps @ s @ ss" by (auto simp: sublist_def)
  with assms(1) show ?thesis by (simp add: sorted_append)
qed

lemma is_run_sorted:
  "sorted (map timestamp s) \<Longrightarrow>
     is_run s = successively (\<lambda>a b. timestamp b - timestamp a \<le> 30000) s"
  unfolding is_run_def
  by (induction s rule: induct_list012) (auto simp: within_gap_def)

text \<open>Runs of a list: the longest one anywhere, and the longest one at its end.\<close>

lemma suffix_last:
  assumes "suffix s (pre @ [x])" "s \<noteq> []"
  shows "last s = x"
proof -
  from assms(1) obtain zs where "pre @ [x] = zs @ s" by (auto simp: suffix_def)
  then have "last (zs @ s) = x" by (metis last_snoc)
  with assms(2) show ?thesis by simp
qed

lemma run_suffix_extend:
  assumes ex: "suffix s (pre @ [prev])" "successively G s" "length s = cur"
      and ub: "\<And>t. suffix t (pre @ [prev]) \<Longrightarrow> successively G t \<Longrightarrow> length t \<le> cur"
      and g: "G prev m"
  shows "suffix (s @ [m]) (pre @ [prev] @ [m]) \<and> successively G (s @ [m])
           \<and> length (s @ [m]) = cur + 1"
    and "\<And>t. suffix t (pre @ [prev] @ [m]) \<Longrightarrow> successively G t \<Longrightarrow> length t \<le> cur + 1"
proof -
  have "suffix [prev] (pre @ [prev])" by (simp add: suffix_def)
  from ub[OF this] have "1 \<le> cur" by simp
  with ex(3) have ne: "s \<noteq> []" by auto
  with ex(1) have l: "last s = prev" by (rule suffix_last)
  from ex(1) obtain zs where "pre @ [prev] = zs @ s" by (auto simp: suffix_def)
  then have "pre @ [prev] @ [m] = zs @ (s @ [m])" by simp
  then have "suffix (s @ [m]) (pre @ [prev] @ [m])" unfolding suffix_def by blast
  moreover have "successively G (s @ [m])"
    using ex(2) g ne l by (simp add: successively_append_iff)
  ultimately show "suffix (s @ [m]) (pre @ [prev] @ [m]) \<and> successively G (s @ [m])
           \<and> length (s @ [m]) = cur + 1"
    using ex(3) by simp
next
  fix t assume t: "suffix t (pre @ [prev] @ [m])" "successively G t"
  show "length t \<le> cur + 1"
  proof (cases "t = []")
    case True
    then show ?thesis by simp
  next
    case False
    with t(1) obtain zs where zs: "t = zs @ [m]" "suffix zs (pre @ [prev])"
      using suffix_snoc[of t "pre @ [prev]" m] by auto
    from t(2) zs(1) have "successively G zs" by (simp add: successively_append_iff)
    from ub[OF zs(2) this] zs(1) show ?thesis by simp
  qed
qed

lemma run_suffix_reset:
  assumes g: "\<not> G prev m"
  shows "\<And>t. suffix t (pre @ [prev] @ [m]) \<Longrightarrow> successively G t \<Longrightarrow> length t \<le> 1"
proof -
  fix t assume t: "suffix t (pre @ [prev] @ [m])" "successively G t"
  show "length t \<le> 1"
  proof (cases "t = []")
    case True
    then show ?thesis by simp
  next
    case False
    with t(1) obtain zs where zs: "t = zs @ [m]" "suffix zs (pre @ [prev])"
      using suffix_snoc[of t "pre @ [prev]" m] by auto
    have "zs = []"
    proof (rule ccontr)
      assume ne: "zs \<noteq> []"
      with zs(2) have "last zs = prev" by (rule suffix_last)
      with t(2) zs(1) ne g show False by (simp add: successively_append_iff)
    qed
    with zs(1) show ?thesis by simp
  qed
qed

lemma longest_snoc:
  assumes "longest_run_of G sublist mx xs" "longest_run_of G suffix c (xs @ [m])"
  shows "longest_run_of G sublist (max mx c) (xs @ [m])"
proof -
  from assms(1) obtain s1 where s1: "sublist s1 xs" "successively G s1" "length s1 = mx"
    and ub1: "\<And>s. sublist s xs \<Longrightarrow> successively G s \<Longrightarrow> length s \<le> mx"
    unfolding longest_run_of_def by blast
  from assms(2) obtain s2 where s2: "suffix s2 (xs @ [m])" "successively G s2" "length s2 = c"
    and ub2: "\<And>s. suffix s (xs @ [m]) \<Longrightarrow> successively G s \<Longrightarrow> length s \<le> c"
    unfolding longest_run_of_def by blast
  have ex: "\<exists>s. sublist s (xs @ [m]) \<and> successively G s \<and> length s = max mx c"
  proof (cases "c \<le> mx")
    case True
    from s1(1) have "sublist s1 (xs @ [m])" by (simp add: sublist_snoc)
    moreover from s1(3) True have "length s1 = max mx c" by (simp add: max_def)
    ultimately show ?thesis using s1(2) by blast
  next
    case False
    from s2(1) have "sublist s2 (xs @ [m])" by (rule suffix_imp_sublist)
    moreover from s2(3) False have "length s2 = max mx c" by (simp add: max_def)
    ultimately show ?thesis using s2(2) by blast
  qed
  have ub: "\<forall>s. sublist s (xs @ [m]) \<and> successively G s \<longrightarrow> length s \<le> max mx c"
  proof (intro allI impI, elim conjE)
    fix s assume s: "sublist s (xs @ [m])" "successively G s"
    from s(1) have "suffix s (xs @ [m]) \<or> sublist s xs" by (simp add: sublist_snoc)
    then show "length s \<le> max mx c"
    proof
      assume "suffix s (xs @ [m])"
      from ub2[OF this s(2)] show ?thesis by simp
    next
      assume "sublist s xs"
      from ub1[OF this s(2)] show ?thesis by simp
    qed
  qed
  from ex ub show ?thesis unfolding longest_run_of_def by blast
qed

lemma streak_loop_longest:
  fixes G defines "G \<equiv> (\<lambda>a b. timestamp b - timestamp a \<le> 30000)"
  assumes "longest_run_of G suffix cur (pre @ [prev])"
      and "longest_run_of G sublist mx (pre @ [prev])"
  shows "longest_run_of G sublist (streak_loop rest prev mx cur) (pre @ [prev] @ rest)"
  using assms(2,3)
proof (induction rest arbitrary: pre prev mx cur)
  case Nil
  then show ?case by simp
next
  case (Cons m ms)
  from Cons.prems(1) obtain s where
    s: "suffix s (pre @ [prev])" "successively G s" "length s = cur"
    and ub: "\<And>t. suffix t (pre @ [prev]) \<Longrightarrow> successively G t \<Longrightarrow> length t \<le> cur"
    unfolding longest_run_of_def by blast
  show ?case
  proof (cases "G prev m")
    case True
    have suf: "longest_run_of G suffix (cur + 1) ((pre @ [prev]) @ [m])"
      unfolding longest_run_of_def
      using run_suffix_extend[of s pre prev G cur m, OF s ub True] by auto
    have lng: "longest_run_of G sublist (max mx (cur + 1)) ((pre @ [prev]) @ [m])"
      using Cons.prems(2) suf by (rule longest_snoc)
    from Cons.IH[of "cur + 1" "pre @ [prev]" m "max mx (cur + 1)"] suf lng True
    show ?thesis by (simp add: G_def)
  next
    case False
    have "suffix [m] ((pre @ [prev]) @ [m])" by (simp add: suffix_def)
    then have suf: "longest_run_of G suffix 1 ((pre @ [prev]) @ [m])"
      unfolding longest_run_of_def
      using run_suffix_reset[of G prev m _ pre, OF False] by force
    have "sublist [prev] (pre @ [prev])" by (rule sublist_append_leftI)
    moreover have "successively G [prev]" by simp
    ultimately have "1 \<le> mx"
      using Cons.prems(2) unfolding longest_run_of_def by fastforce
    then have "max mx 1 = mx" by simp
    with longest_snoc[OF Cons.prems(2) suf]
    have lng: "longest_run_of G sublist mx ((pre @ [prev]) @ [m])" by simp
    from Cons.IH[of 1 "pre @ [prev]" m mx] suf lng False
    show ?thesis by (simp add: G_def)
  qed
qed

lemma sort_key_Nil: "(sort_key f xs = []) = (xs = [])"
proof
  assume "sort_key f xs = []"
  then have "length (sort_key f xs) = 0" by (simp only: list.size)
  then show "xs = []" by (simp only: length_sort length_0_conv)
qed simp

lemma singleton_longest:
  "longest_run_of G sublist 1 ([] @ [x])" "longest_run_of G suffix 1 ([] @ [x])"
proof -
  have "sublist [x] [x]" "suffix [x] [x]" "successively G [x]" by simp_all
  moreover have "\<And>s. sublist s [x] \<Longrightarrow> length s \<le> 1"
    using sublist_length_le by fastforce
  moreover have "\<And>s. suffix s [x] \<Longrightarrow> length s \<le> 1"
    using suffix_length_le by fastforce
  ultimately show "longest_run_of G sublist 1 ([] @ [x])" "longest_run_of G suffix 1 ([] @ [x])"
    unfolding longest_run_of_def by fastforce+
qed

lemma calculateConsecutiveMatches_longest:
  "longest_run_of (\<lambda>a b. timestamp b - timestamp a \<le> 30000) sublist
     (calculateConsecutiveMatches ms) (sortedMatches ms)"
proof (cases "sortedMatches ms")
  case Nil
  then have "ms = []" by (simp add: sortedMatches_def sort_key_Nil)
  then show ?thesis
    by (simp add: calculateConsecutiveMatches_def sortedMatches_def longest_run_of_def)
next
  case (Cons first rest)
  then have "ms \<noteq> []" by (auto simp: sortedMatches_def)
  with Cons have "calculateConsecutiveMatches ms = streak_loop rest first 1 1"
    by (simp add: calculateConsecutiveMatches_def)
  moreover have "sortedMatches ms = [] @ [first] @ rest" using Cons by simp
  ultimately show ?thesis
    using streak_loop_longest[where pre="[]" and prev=first and cur=1 and mx=1 and rest=rest,
            OF singleton_longest(2) singleton_longest(1)]
    by simp
qed

lemma spec_longest_run_eq:
  assumes "longest_run_of (\<lambda>a b. timestamp b - timestamp a \<le> 30000) sublist n
             (sort_key timestamp ms)"
  shows "spec_longest_run ms = n"
proof -
  let ?G = "\<lambda>a b. timestamp b - timestamp a \<le> 30000"
  let ?xs = "sort_key timestamp ms"
  have run: "is_run s = successively ?G s" if "sublist s ?xs" for s
  proof -
    have "sorted (map timestamp ?xs)" by (rule sorted_sort_key)
    then have "sorted (map timestamp s)" using that by (rule sorted_sublist)
    then show ?thesis by (rule is_run_sorted)
  qed
  from assms obtain s where s: "sublist s ?xs" "successively ?G s" "length s = n"
    and ub: "\<And>t. sublist t ?xs \<Longrightarrow> successively ?G t \<Longrightarrow> length t \<le> n"
    unfolding longest_run_of_def by blast
  let ?A = "set (map length (filter is_run (sublists ?xs)))"
  have "Max ?A = n"
  proof (rule Max_eqI)
    show "finite ?A" by (rule finite_set)
    show "n \<in> ?A" using s run[OF s(1)] by force
    fix y assume "y \<in> ?A"
    then obtain t where "sublist t ?xs" "is_run t" "y = length t" by auto
    with ub[of t] run[of t] show "y \<le> n" by simp
  qed
  then show ?thesis by (simp add: spec_longest_run_def)
qed

text \<open>
  C8.  The streak that the completion handler feeds to the score calculator is the length
  of the longest run of the session's recorded matches, ordered by timestamp, in which
  each match is within 30000 ms of the previous one; it is 0 for a session without
  matches and at least 1 otherwise.  The wrong-move count fed with it is the move counter
  minus the number of matches.
\<close>

theorem streak_fed_to_score:
  "calculateConsecutiveMatches (matches s) = spec_longest_run (matches s)
   \<and> (if matches s = [] then calculateConsecutiveMatches (matches s) = 0
      else 1 \<le> calculateConsecutiveMatches (matches s))
   \<and> gs_consecutiveMatches (gameStats_of s t) = Some (int (spec_longest_run (matches s)))
   \<and> gs_wrongMoves (gameStats_of s t) = moves s - int (length (matches s))"
proof -
  let ?G = "\<lambda>a b. timestamp b - timestamp a \<le> 30000"
  have l: "longest_run_of ?G sublist (calculateConsecutiveMatches (matches s))
             (sort_key timestamp (matches s))"
    using calculateConsecutiveMatches_longest[of "matches s"] by (simp add: sortedMatches_def)
  then have eq: "calculateConsecutiveMatches (matches s) = spec_longest_run (matches s)"
    by (rule spec_longest_run_eq [symmetric])
  have "1 \<le> calculateConsecutiveMatches (matches s)" if "matches s \<noteq> []"
  proof -
    from that obtain x xs where "sort_key timestamp (matches s) = x # xs"
      by (cases "sort_key timestamp (matches s)") (auto simp: sort_key_Nil)
    then have "sublist [x] (sort_key timestamp (matches s))"
      by (simp add: sublist_Cons_right)
    moreover have "successively ?G [x]" by simp
    ultimately show ?thesis using l unfolding longest_run_of_def by fastforce
  qed
  moreover have "calculateConsecutiveMatches [] = 0"
    by (simp add: calculateConsecutiveMatches_def)
  ultimately show ?thesis
    using eq by (simp add: gameStats_of_def)
qed


section \<open>Effects of the handlers on the two stores\<close>

lemma cacheGameSession_Inr:
  "cacheGameSession ok gid s w = Inr w' \<Longrightarrow> w' = w\<lparr>cache := (cache w)(gid \<mapsto> s)\<rparr>"
  by (auto simp: cacheGameSession_def split: if_splits)

lemma del_Inr:
  "del ok k w = Inr w' \<Longrightarrow> w' = w\<lparr>other_keys := other_keys w - {k}\<rparr>"
  by (auto simp: del_def split: if_splits)

lemma trackUserActivity_Inr:
  "trackUserActivity ok h u a w = Inr w' \<Longrightarrow> \<exists>c. w' = w\<lparr>counters := c\<rparr>"
  by (auto simp: trackUserActivity_def incr_def split: if_splits)

lemma incrementDailyGames_Inr:
  "incrementDailyGames ok d w = Inr w' \<Longrightarrow> \<exists>c. w' = w\<lparr>counters := c\<rparr>"
  by (auto simp: incrementDailyGames_def incr_def split: if_splits)

lemma updateLastPlayed_Inr:
  "updateLastPlayed ok now uid w = Inr w' \<Longrightarrow> \<exists>us. w' = w\<lparr>users := us\<rparr>"
  by (auto simp: updateLastPlayed_def split: if_splits)

lemma recordMatch_Inr:
  "recordMatch ok gid c1 c2 mt p b w = Inr w' \<Longrightarrow> \<exists>ms. w' = w\<lparr>game_matches := ms\<rparr>"
  by (auto simp: recordMatch_def split: if_splits)

lemma createOrGetUser_Inr:
  "createOrGetUser sok iok nid u w = Inr (user, w') \<Longrightarrow> \<exists>us. w' = w\<lparr>users := us\<rparr>"
proof -
  assume a: "createOrGetUser sok iok nid u w = Inr (user, w')"
  show ?thesis
  proof (cases "find (\<lambda>x. u_username x = u) (users w)")
    case None
    with a have "w' = w\<lparr>users := users w @ [fst (projr (createOrGetUser sok iok nid u w))]\<rparr>"
      by (auto simp: createOrGetUser_def Let_def split: if_splits)
    then show ?thesis by blast
  next
    case (Some existing)
    with a have "w' = w" by (auto simp: createOrGetUser_def split: if_splits)
    then have "w' = w\<lparr>users := users w\<rparr>" by simp
    then show ?thesis by blast
  qed
qed

lemma createGame_Inr:
  "createGame ok nid now uid u d w = Inr (gid, game, w') \<Longrightarrow>
     gid = nid \<and> nid \<notin> dom (games w) \<and> w' = w\<lparr>games := (games w)(nid \<mapsto> game)\<rparr>"
  by (auto simp: createGame_def Let_def split: if_splits)

lemma completeGame_Inr:
  "completeGame ok now gid sc mv te cm w = Inr (row, w') \<Longrightarrow>
     ok \<and> gid \<in> dom (games w) \<and> game_completed row \<and> g_score row = sc
     \<and> (\<exists>us. w' = w\<lparr>games := (games w)(gid \<mapsto> row), users := us\<rparr>)"
  by (auto simp: completeGame_def Let_def split: if_splits option.splits)

lemma generateCardSet_Inr: "generateCardSet r1 r2 d c = Inr cs \<Longrightarrow> difficulties d \<noteq> None"
  by (auto simp: generateCardSet_def split: option.splits)

lemma start_finish_effect:
  assumes "start_finish env user uname dif cs gid game w3 = (r, l, w')"
  shows "cache w' = cache w3 \<and> games w' = games w3"
  using assms
  by (auto simp: start_finish_def start_failed_def split: sum.splits
        dest!: trackUserActivity_Inr incrementDailyGames_Inr updateLastPlayed_Inr)

lemma start_effect:
  assumes "start_handler env req w = (r, l, w')"
  shows "dom (games w) \<subseteq> dom (games w')
         \<and> (cache w' = cache w
            \<or> (\<exists>gid s. gid \<notin> dom (games w) \<and> gid \<in> dom (games w')
                  \<and> cache w' = (cache w)(gid \<mapsto> s)
                  \<and> moves s = 0 \<and> matches s = [] \<and> \<not> isCompleted s
                  \<and> difficulties (difficulty s) \<noteq> None))"
proof -
  define uname where "uname = sr_username req"
  define dif where "dif = (case sr_difficulty req of None \<Rightarrow> ''easy'' | Some d \<Rightarrow> d)"
  note h = assms[unfolded start_handler_def Let_def, folded uname_def dif_def]
  show ?thesis
  proof (cases "createOrGetUser (se_selectUser_ok env) (se_insertUser_ok env) (se_newUserId env) uname w")
    case (Inl e)
    with h show ?thesis by (simp add: start_failed_def)
  next
    case (Inr uw)
    obtain user w1 where uw: "uw = (user, w1)" by (cases uw)
    from Inr uw obtain us where w1: "w1 = w\<lparr>users := us\<rparr>"
      using createOrGetUser_Inr by blast
    show ?thesis
    proof (cases "generateCardSet (se_rnd1 env) (se_rnd2 env) dif (sr_categories req)")
      case (Inl e)
      with h Inr uw w1 show ?thesis by (auto simp: start_failed_def)
    next
      case gen: (Inr cs)
      then have dif: "difficulties dif \<noteq> None" by (rule generateCardSet_Inr)
      show ?thesis
      proof (cases "createGame (se_insertGame_ok env) (se_newGameId env) (se_now env) (u_id user) uname dif w1")
        case (Inl e)
        with h Inr uw w1 gen show ?thesis by (auto simp: start_failed_def)
      next
        case cg: (Inr ggw)
        obtain gid game w2 where ggw: "ggw = (gid, game, w2)" by (cases ggw)
        from cg ggw have g: "gid \<notin> dom (games w1)" "w2 = w1\<lparr>games := (games w1)(gid \<mapsto> game)\<rparr>"
          using createGame_Inr by blast+
        let ?s = "new_session gid user uname dif cs (se_now env)"
        show ?thesis
        proof (cases "cacheGameSession (se_cacheWrite_ok env) gid ?s w2")
          case (Inl e)
          with h Inr uw w1 gen cg ggw g show ?thesis by (auto simp: start_failed_def)
        next
          case cw: (Inr w3)
          then have w3: "w3 = w2\<lparr>cache := (cache w2)(gid \<mapsto> ?s)\<rparr>"
            by (rule cacheGameSession_Inr)
          from h Inr uw gen cg ggw cw
          have "start_finish env user uname dif cs gid game w3 = (r, l, w')" by simp
          then have "cache w' = cache w3" "games w' = games w3"
            using start_finish_effect by blast+
          with w3 g w1 have c: "cache w' = (cache w)(gid \<mapsto> ?s)" "gid \<notin> dom (games w)"
            "games w' = (games w)(gid \<mapsto> game)" by simp_all
          have f: "moves ?s = 0" "matches ?s = []" "\<not> isCompleted ?s" "difficulty ?s = dif"
            by (simp_all add: new_session_def)
          from c(3) have sub: "dom (games w) \<subseteq> dom (games w')" "gid \<in> dom (games w')"
            by auto
          have "\<exists>g s. g \<notin> dom (games w) \<and> g \<in> dom (games w')
                  \<and> cache w' = (cache w)(g \<mapsto> s)
                  \<and> moves s = 0 \<and> matches s = [] \<and> \<not> isCompleted s
                  \<and> difficulties (difficulty s) \<noteq> None"
            using c(1,2) sub(2) f dif
            by (intro exI[of _ gid] exI[of _ ?s]) simp
          with sub(1) show ?thesis by blast
        qed
      qed
    qed
  qed
qed


lemma getCachedGameSession_Some:
  "getCachedGameSession oc gid w = Inr (Some s) \<Longrightarrow> oc = ReadOk \<and> cache w gid = Some s"
  by (auto simp: getCachedGameSession_def split: read_outcome.splits)

lemma match_finish_effect:
  assumes "match_finish env req s0 isMatch p b sb w = (r, l, w')"
  shows "games w' = games w
         \<and> (cache w' = cache w
            \<or> cache w' = (cache w)(mr_gameId req \<mapsto> s0\<lparr>moves := moves s0 + 1\<rparr>))
         \<and> (\<exists>body. r = MatchResponse body)"
  using assms
  by (auto simp: match_finish_def Let_def split: sum.splits prod.splits
        dest!: trackUserActivity_Inr cacheGameSession_Inr)

lemma match_effect:
  assumes "match_handler env req w = (r, l, w')"
  shows "games w' = games w
         \<and> (cache w' = cache w
            \<or> (\<exists>s s'. cache w (mr_gameId req) = Some s \<and> \<not> isCompleted s
                  \<and> cache w' = (cache w)(mr_gameId req \<mapsto> s')
                  \<and> \<not> isCompleted s' \<and> moves s' = moves s + 1
                  \<and> length (matches s') \<le> length (matches s) + 1
                  \<and> difficulty s' = difficulty s))"
proof -
  define Q where "Q \<longleftrightarrow> games w' = games w
         \<and> (cache w' = cache w
            \<or> (\<exists>s s'. cache w (mr_gameId req) = Some s \<and> \<not> isCompleted s
                  \<and> cache w' = (cache w)(mr_gameId req \<mapsto> s')
                  \<and> \<not> isCompleted s' \<and> moves s' = moves s + 1
                  \<and> length (matches s') \<le> length (matches s) + 1
                  \<and> difficulty s' = difficulty s))"
  have same: Q if "w = w'"
    using that by (simp add: Q_def)
  have fin: Q
    if "match_finish env req s1 isMatch p b sb w1 = (r, l, w')"
      and "cache w (mr_gameId req) = Some s" "\<not> isCompleted s"
      and "games w1 = games w" "cache w1 = cache w"
      and "\<not> isCompleted s1" "moves s1 = moves s"
      and "length (matches s1) \<le> length (matches s) + 1" "difficulty s1 = difficulty s"
    for s s1 isMatch p b sb w1
  proof -
    from match_finish_effect[OF that(1)] that(4,5)
    have g: "games w' = games w"
      and k: "cache w' = cache w
              \<or> cache w' = (cache w)(mr_gameId req \<mapsto> s1\<lparr>moves := moves s1 + 1\<rparr>)"
      by simp_all
    from k show ?thesis
    proof
      assume "cache w' = cache w"
      with g show ?thesis by (simp add: Q_def)
    next
      let ?s' = "s1\<lparr>moves := moves s1 + 1\<rparr>"
      assume "cache w' = (cache w)(mr_gameId req \<mapsto> ?s')"
      with that(2,3,6-9)
      have "cache w (mr_gameId req) = Some s \<and> \<not> isCompleted s
              \<and> cache w' = (cache w)(mr_gameId req \<mapsto> ?s')
              \<and> \<not> isCompleted ?s' \<and> moves ?s' = moves s + 1
              \<and> length (matches ?s') \<le> length (matches s) + 1
              \<and> difficulty ?s' = difficulty s"
        by simp
      then show ?thesis using g unfolding Q_def by blast
    qed
  qed
  have Q
  proof (cases "getCachedGameSession (me_read env) (mr_gameId req) w")
    case (Inl e)
    with assms show ?thesis by (auto simp: match_handler_def match_failed_def intro: same)
  next
    case (Inr found)
    show ?thesis
    proof (cases found)
      case None
      with Inr assms show ?thesis by (auto simp: match_handler_def intro: same)
    next
      case (Some s)
      with Inr have c: "cache w (mr_gameId req) = Some s"
        using getCachedGameSession_Some by blast
      show ?thesis
      proof (cases "isCompleted s")
        case True
        with Inr Some assms show ?thesis by (auto simp: match_handler_def intro: same)
      next
        case inprog: False
        note f = fin[OF _ c inprog]
        from assms Inr Some inprog show ?thesis
          by (auto simp: match_handler_def match_failed_def Let_def
                split: option.splits if_splits sum.splits
                dest!: recordMatch_Inr intro: same f)
      qed
    qed
  qed
  then show ?thesis by (simp only: Q_def)
qed

lemma complete_finish_effect:
  assumes "complete_finish env req completed sb n w2 = (r, l, w')"
  shows "cache w' = cache w2 \<and> games w' = games w2"
  using assms
  by (auto simp: complete_finish_def complete_failed_def split: sum.splits
        dest!: trackUserActivity_Inr del_Inr)


lemma complete_cases:
  assumes "complete_handler env req w = (r, l, w')"
  shows "(w' = w \<and> (\<exists>code msg. r = ErrorResponse code msg))
         \<or> (\<exists>s sb row w1.
               cache w (cr_gameId req) = Some s \<and> \<not> isCompleted s
               \<and> calculateScore (gameStats_of s (cr_timeElapsed req)) = Inr sb
               \<and> completeGame (ce_completeGame_ok env) (ce_now env) (cr_gameId req)
                     (totalScore sb) (moves s) (cr_timeElapsed req)
                     (int (length (matches s))) w = Inr (row, w1)
               \<and> ((\<not> ce_cacheWrite_ok env \<and> w' = w1
                     \<and> r = ErrorResponse 500 ''Failed to complete game'')
                    \<or> (ce_cacheWrite_ok env
                        \<and> complete_finish env req (completed_session env s sb) sb
                              (length (matches s))
                              (w1\<lparr>cache := (cache w1)(cr_gameId req \<mapsto> completed_session env s sb)\<rparr>)
                            = (r, l, w'))))"
proof -
  show ?thesis
  proof (cases "getCachedGameSession (ce_read env) (cr_gameId req) w")
    case (Inl e)
    with assms show ?thesis by (auto simp: complete_handler_def complete_failed_def)
  next
    case (Inr found)
    show ?thesis
    proof (cases found)
      case None
      with Inr assms show ?thesis by (auto simp: complete_handler_def)
    next
      case (Some s)
      with Inr have c: "cache w (cr_gameId req) = Some s"
        using getCachedGameSession_Some by blast
      show ?thesis
      proof (cases "isCompleted s")
        case True
        with Inr Some assms show ?thesis by (auto simp: complete_handler_def)
      next
        case inprog: False
        show ?thesis
        proof (cases "calculateScore (gameStats_of s (cr_timeElapsed req))")
          case (Inl e)
          with Inr Some inprog assms show ?thesis
            by (auto simp: complete_handler_def complete_failed_def)
        next
          case sc: (Inr sb)
          show ?thesis
          proof (cases "completeGame (ce_completeGame_ok env) (ce_now env) (cr_gameId req)
                     (totalScore sb) (moves s) (cr_timeElapsed req)
                     (int (length (matches s))) w")
            case (Inl e)
            with Inr Some inprog sc assms show ?thesis
              by (auto simp: complete_handler_def complete_failed_def Let_def)
          next
            case cg: (Inr rw)
            obtain row w1 where rw: "rw = (row, w1)" by (cases rw)
            show ?thesis
            proof (cases "ce_cacheWrite_ok env")
              case False
              with Inr Some inprog sc cg rw assms
              have "w' = w1 \<and> r = ErrorResponse 500 ''Failed to complete game''"
                by (auto simp: complete_handler_def complete_failed_def Let_def
                      cacheGameSession_def)
              with c inprog sc cg rw False show ?thesis by blast
            next
              case True
              with Inr Some inprog sc cg rw assms
              have "complete_finish env req (completed_session env s sb) sb
                              (length (matches s))
                              (w1\<lparr>cache := (cache w1)(cr_gameId req \<mapsto> completed_session env s sb)\<rparr>)
                            = (r, l, w')"
                by (simp add: complete_handler_def Let_def cacheGameSession_def
                      completed_session_def)
              with c inprog sc cg rw True show ?thesis by blast
            qed
          qed
        qed
      qed
    qed
  qed
qed

lemma complete_effect:
  assumes "complete_handler env req w = (r, l, w')"
  shows "dom (games w) \<subseteq> dom (games w')
         \<and> (cache w' = cache w
            \<or> (\<exists>s s'. cache w (cr_gameId req) = Some s \<and> \<not> isCompleted s
                  \<and> cache w' = (cache w)(cr_gameId req \<mapsto> s')
                  \<and> isCompleted s' \<and> moves s' = moves s
                  \<and> length (matches s') = length (matches s)
                  \<and> difficulty s' = difficulty s))"
proof -
  from complete_cases[OF assms] show ?thesis
  proof (elim disjE exE conjE)
    assume "w' = w"
    then show ?thesis by simp
  next
    fix s :: game_session and sb :: score_result and row w1
    assume a: "completeGame (ce_completeGame_ok env) (ce_now env) (cr_gameId req)
                     (totalScore sb) (moves s) (cr_timeElapsed req)
                     (int (length (matches s))) w = Inr (row, w1)"
      and "w' = w1"
    with completeGame_Inr[OF a] show ?thesis by auto
  next
    fix s sb row w1
    let ?s' = "completed_session env s sb"
    assume c: "cache w (cr_gameId req) = Some s" "\<not> isCompleted s"
      and a: "completeGame (ce_completeGame_ok env) (ce_now env) (cr_gameId req)
                     (totalScore sb) (moves s) (cr_timeElapsed req)
                     (int (length (matches s))) w = Inr (row, w1)"
      and f: "complete_finish env req ?s' sb (length (matches s))
                (w1\<lparr>cache := (cache w1)(cr_gameId req \<mapsto> ?s')\<rparr>) = (r, l, w')"
    from completeGame_Inr[OF a] obtain us where
      w1: "w1 = w\<lparr>games := (games w)(cr_gameId req \<mapsto> row), users := us\<rparr>" by blast
    from complete_finish_effect[OF f] w1
    have k: "cache w' = (cache w)(cr_gameId req \<mapsto> ?s')"
      and g: "games w' = (games w)(cr_gameId req \<mapsto> row)" by simp_all
    have p: "isCompleted ?s'" "moves ?s' = moves s" "length (matches ?s') = length (matches s)"
      "difficulty ?s' = difficulty s"
      by (simp_all add: completed_session_def sortedMatches_def)
    from g have "dom (games w) \<subseteq> dom (games w')" by auto
    moreover from c k p have "\<exists>s s'. cache w (cr_gameId req) = Some s \<and> \<not> isCompleted s
                  \<and> cache w' = (cache w)(cr_gameId req \<mapsto> s')
                  \<and> isCompleted s' \<and> moves s' = moves s
                  \<and> length (matches s') = length (matches s)
                  \<and> difficulty s' = difficulty s" by blast
    ultimately show ?thesis by blast
  qed
qed


lemma step_effect:
  assumes "step w w'"
  shows "dom (games w) \<subseteq> dom (games w')
         \<and> (cache w' = cache w
            \<or> (\<exists>gid s. gid \<notin> dom (games w) \<and> gid \<in> dom (games w')
                  \<and> cache w' = (cache w)(gid \<mapsto> s)
                  \<and> moves s = 0 \<and> matches s = [] \<and> \<not> isCompleted s
                  \<and> difficulties (difficulty s) \<noteq> None)
            \<or> (\<exists>gid s s'. cache w gid = Some s \<and> \<not> isCompleted s
                  \<and> cache w' = (cache w)(gid \<mapsto> s')
                  \<and> moves s \<le> moves s' \<and> moves s' - moves s \<ge> int (length (matches s')) - int (length (matches s))
                  \<and> difficulty s' = difficulty s))"
  using assms
proof cases
  case (step_start env req r l)
  from start_effect[OF this] show ?thesis by blast
next
  case (step_match menv mreq r l)
  from match_effect[OF this] show ?thesis
  proof (elim conjE disjE exE)
    assume "games w' = games w" "cache w' = cache w"
    then show ?thesis by simp
  next
    fix s s'
    assume g: "games w' = games w"
      and "cache w (mr_gameId mreq) = Some s" "\<not> isCompleted s"
        "cache w' = (cache w)(mr_gameId mreq \<mapsto> s')" "moves s' = moves s + 1"
        "length (matches s') \<le> length (matches s) + 1" "difficulty s' = difficulty s"
    then have "cache w (mr_gameId mreq) = Some s \<and> \<not> isCompleted s
                  \<and> cache w' = (cache w)(mr_gameId mreq \<mapsto> s')
                  \<and> moves s \<le> moves s' \<and> moves s' - moves s \<ge> int (length (matches s')) - int (length (matches s))
                  \<and> difficulty s' = difficulty s" by simp
    then have "\<exists>gid s s'. cache w gid = Some s \<and> \<not> isCompleted s
                  \<and> cache w' = (cache w)(gid \<mapsto> s')
                  \<and> moves s \<le> moves s' \<and> moves s' - moves s \<ge> int (length (matches s')) - int (length (matches s))
                  \<and> difficulty s' = difficulty s" by blast
    moreover from g have "dom (games w) \<subseteq> dom (games w')" by simp
    ultimately show ?thesis by blast
  qed
next
  case (step_complete cenv creq r l)
  from complete_effect[OF this] show ?thesis
  proof (elim conjE disjE exE)
    assume "dom (games w) \<subseteq> dom (games w')" "cache w' = cache w"
    then show ?thesis by simp
  next
    fix s s'
    assume g: "dom (games w) \<subseteq> dom (games w')"
      and "cache w (cr_gameId creq) = Some s" "\<not> isCompleted s"
        "cache w' = (cache w)(cr_gameId creq \<mapsto> s')" "moves s' = moves s"
        "length (matches s') = length (matches s)" "difficulty s' = difficulty s"
    then have "cache w (cr_gameId creq) = Some s \<and> \<not> isCompleted s
                  \<and> cache w' = (cache w)(cr_gameId creq \<mapsto> s')
                  \<and> moves s \<le> moves s' \<and> moves s' - moves s \<ge> int (length (matches s')) - int (length (matches s))
                  \<and> difficulty s' = difficulty s" by simp
    then have "\<exists>gid s s'. cache w gid = Some s \<and> \<not> isCompleted s
                  \<and> cache w' = (cache w)(gid \<mapsto> s')
                  \<and> moves s \<le> moves s' \<and> moves s' - moves s \<ge> int (length (matches s')) - int (length (matches s))
                  \<and> difficulty s' = difficulty s" by blast
    with g show ?thesis by blast
  qed
qed

lemma session_invI:
  assumes "\<And>gid s. cache w gid = Some s \<Longrightarrow>
             gid \<in> dom (games w) \<and> int (length (matches s)) \<le> moves s
             \<and> difficulties (difficulty s) \<noteq> None"
  shows "session_inv w"
  unfolding session_inv_def using assms by blast

lemma session_invD:
  assumes "session_inv w" "cache w gid = Some s"
  shows "gid \<in> dom (games w)" "int (length (matches s)) \<le> moves s"
    "difficulties (difficulty s) \<noteq> None"
  using assms unfolding session_inv_def by blast+

lemma step_inv:
  assumes "session_inv w" "step w w'"
  shows "session_inv w'"
proof -
  note d = session_invD[OF assms(1)]
  from step_effect[OF assms(2)] show ?thesis
  proof (elim conjE disjE exE)
    assume g: "dom (games w) \<subseteq> dom (games w')" and c: "cache w' = cache w"
    show ?thesis
    proof (rule session_invI)
      fix gid s assume "cache w' gid = Some s"
      then have "cache w gid = Some s" by (simp add: c)
      from d[OF this] g show "gid \<in> dom (games w') \<and> int (length (matches s)) \<le> moves s
             \<and> difficulties (difficulty s) \<noteq> None" by blast
    qed
  next
    fix g0 s0
    assume g: "dom (games w) \<subseteq> dom (games w')" and n: "g0 \<in> dom (games w')"
      and c: "cache w' = (cache w)(g0 \<mapsto> s0)" and z: "moves s0 = 0" "matches s0 = []"
      and k: "difficulties (difficulty s0) \<noteq> None"
    show ?thesis
    proof (rule session_invI)
      fix gid s assume a: "cache w' gid = Some s"
      show "gid \<in> dom (games w') \<and> int (length (matches s)) \<le> moves s
             \<and> difficulties (difficulty s) \<noteq> None"
      proof (cases "gid = g0")
        case True
        with a c have "s = s0" by simp
        with True n z k show ?thesis by simp
      next
        case False
        with a c have "cache w gid = Some s" by simp
        from d[OF this] g show ?thesis by blast
      qed
    qed
  next
    fix g0 s0 s1
    assume g: "dom (games w) \<subseteq> dom (games w')" and o: "cache w g0 = Some s0"
      and c: "cache w' = (cache w)(g0 \<mapsto> s1)" and m: "moves s0 \<le> moves s1"
      "moves s1 - moves s0 \<ge> int (length (matches s1)) - int (length (matches s0))"
      and k: "difficulty s1 = difficulty s0"
    show ?thesis
    proof (rule session_invI)
      fix gid s assume a: "cache w' gid = Some s"
      show "gid \<in> dom (games w') \<and> int (length (matches s)) \<le> moves s
             \<and> difficulties (difficulty s) \<noteq> None"
      proof (cases "gid = g0")
        case True
        with a c have e: "s = s1" by simp
        from d(1)[OF o] g True have "gid \<in> dom (games w')" by blast
        moreover from d(2)[OF o] m have "int (length (matches s1)) \<le> moves s1" by linarith
        moreover from d(3)[OF o] k have "difficulties (difficulty s1) \<noteq> None" by simp
        ultimately show ?thesis using e by simp
      next
        case False
        with a c have "cache w gid = Some s" by simp
        from d[OF this] g show ?thesis by blast
      qed
    qed
  qed
qed

lemma step_completed:
  assumes "session_inv w" "step w w'" "cache w gid = Some s" "isCompleted s"
  shows "cache w' gid = Some s"
proof -
  from session_invD(1)[OF assms(1,3)] have g: "gid \<in> dom (games w)" .
  from step_effect[OF assms(2)] show ?thesis
  proof (elim conjE disjE exE)
    assume "cache w' = cache w"
    with assms(3) show ?thesis by simp
  next
    fix g0 s0
    assume "g0 \<notin> dom (games w)" "cache w' = (cache w)(g0 \<mapsto> s0)"
    with g assms(3) show ?thesis by auto
  next
    fix g0 s0 s1
    assume "cache w g0 = Some s0" "\<not> isCompleted s0" "cache w' = (cache w)(g0 \<mapsto> s1)"
    with assms(3,4) show ?thesis by auto
  qed
qed

lemma reachable_inv: "reachable w \<Longrightarrow> session_inv w"
proof (induction rule: reachable.induct)
  case (reachable_init w)
  then show ?case by (simp add: session_inv_def)
next
  case (reachable_step w w')
  then show ?case using step_inv by blast
qed

lemma reachable_steps: "step\<^sup>*\<^sup>* w w' \<Longrightarrow> reachable w \<Longrightarrow> reachable w'"
  by (induction rule: rtranclp_induct) (auto intro: reachable_step)

lemma steps_completed:
  assumes "step\<^sup>*\<^sup>* w w'" "reachable w" "cache w gid = Some s" "isCompleted s"
  shows "cache w' gid = Some s"
  using assms
proof (induction rule: rtranclp_induct)
  case base
  then show ?case by simp
next
  case (step y z)
  then have c: "cache y gid = Some s" by simp
  have "reachable y" using step.hyps(1) step.prems(1) by (rule reachable_steps)
  then have "session_inv y" by (rule reachable_inv)
  then show ?case using step.hyps(2) c step.prems(3) by (rule step_completed)
qed

text \<open>
  C9.  In every store reachable by a sequence of Start, Match and Complete requests
  (whatever the outcomes of their I/O), each cached session has a move counter at least
  as large as its number of recorded matches; and a cached session whose
  \<open>isCompleted\<close> flag is set is still cached with the flag set after any further
  sequence of requests.
\<close>

theorem reachable_session_invariants:
  assumes "reachable w"
  shows "(\<forall>gid s. cache w gid = Some s \<longrightarrow> int (length (matches s)) \<le> moves s)
       \<and> (\<forall>w' gid s. step\<^sup>*\<^sup>* w w' \<and> cache w gid = Some s \<and> isCompleted s \<longrightarrow>
              (\<exists>s'. cache w' gid = Some s' \<and> isCompleted s'))"
proof -
  from reachable_inv[OF assms]
  have "\<forall>gid s. cache w gid = Some s \<longrightarrow> int (length (matches s)) \<le> moves s"
    unfolding session_inv_def by blast
  moreover have "\<forall>w' gid s. step\<^sup>*\<^sup>* w w' \<and> cache w gid = Some s \<and> isCompleted s \<longrightarrow>
              (\<exists>s'. cache w' gid = Some s' \<and> isCompleted s')"
    using steps_completed[OF _ assms] by blast
  ultimately show ?thesis by blast
qed


section \<open>Successful runs of the handlers\<close>

lemma generateCardSet_total:
  "difficulties d = Some config \<Longrightarrow> \<exists>cs. generateCardSet r1 r2 d c = Inr cs"
  by (simp add: generateCardSet_def Let_def)

lemma start_run:
  assumes "se_selectUser_ok env" "se_insertUser_ok env" "se_insertGame_ok env"
    "se_cacheWrite_ok env"
    and "find (\<lambda>u. u_username u = sr_username req) (users w) = None"
    and "se_newUserId env \<notin> set (map u_id (users w))"
    and "se_newGameId env \<notin> dom (games w)"
    and "sr_difficulty req = Some d" "difficulties d = Some config"
  shows "\<exists>user cs game w3.
           cache w3 = (cache w)(se_newGameId env \<mapsto>
                         new_session (se_newGameId env) user (sr_username req) d cs (se_now env))
           \<and> start_handler env req w
               = start_finish env user (sr_username req) d cs (se_newGameId env) game w3"
proof -
  from generateCardSet_total[OF assms(9)]
  obtain cs where cs: "generateCardSet (se_rnd1 env) (se_rnd2 env) d (sr_categories req) = Inr cs"
    by blast
  show ?thesis
    using assms cs
    apply (simp add: start_handler_def createOrGetUser_def createGame_def cacheGameSession_def
          Let_def domIff)
    apply (intro exI conjI)
     prefer 2
     apply (rule refl)
    apply simp
    done
qed


lemma start_finish_ok:
  assumes "se_dailyGames_ok env" "se_track_ok env" "se_updateLastPlayed_ok env"
  shows "\<exists>body w6. start_finish env user uname d cs gid game w3 = (StartResponse body, [], w6)
           \<and> sb_gameId body = gid"
  using assms
  by (simp add: start_finish_def incrementDailyGames_def trackUserActivity_def
        updateLastPlayed_def)

lemma start_finish_track_fails:
  assumes "\<not> se_track_ok env"
  shows "fst (start_finish env user uname d cs gid game w3)
           = ErrorResponse 500 ''Failed to start game''"
  using assms
  by (simp add: start_finish_def incrementDailyGames_def trackUserActivity_def
        start_failed_def split: sum.splits)

lemma start_finish_daily_fails:
  assumes "\<not> se_dailyGames_ok env"
  shows "fst (start_finish env user uname d cs gid game w3)
           = ErrorResponse 500 ''Failed to start game''"
  using assms
  by (simp add: start_finish_def incrementDailyGames_def start_failed_def)

lemma sample_start_run:
  assumes "se_selectUser_ok env" "se_insertUser_ok env" "se_insertGame_ok env"
    "se_cacheWrite_ok env"
  shows "\<exists>user cs game w3.
           cache w3 = [se_newGameId env \<mapsto>
                         new_session (se_newGameId env) user ''player123'' ''easy'' cs (se_now env)]
           \<and> start_handler env sample_start_request empty_world
               = start_finish env user ''player123'' ''easy'' cs (se_newGameId env) game w3"
proof -
  have "difficulties ''easy'' = Some easy_config" by (simp add: difficulties_def)
  from start_run[OF assms, of sample_start_request empty_world "''easy''" easy_config, OF _ _ _ _ this]
  show ?thesis by (simp add: sample_start_request_def empty_world_def)
qed

lemma started_world_cache:
  "\<exists>user cs. cache started_world sample_gameId
      = Some (new_session sample_gameId user ''player123'' ''easy'' cs 1700000000000)"
proof -
  have e: "se_selectUser_ok sample_start_env" "se_insertUser_ok sample_start_env"
    "se_insertGame_ok sample_start_env" "se_cacheWrite_ok sample_start_env"
    "se_newGameId sample_start_env = sample_gameId" "se_now sample_start_env = 1700000000000"
    by (simp_all add: sample_start_env_def)
  from sample_start_run[OF e(1-4)] obtain user cs game w3 where
    c: "cache w3 = [sample_gameId \<mapsto>
                     new_session sample_gameId user ''player123'' ''easy'' cs 1700000000000]"
    and r: "start_handler sample_start_env sample_start_request empty_world
              = start_finish sample_start_env user ''player123'' ''easy'' cs sample_gameId game w3"
    unfolding e(5,6) by blast
  obtain x l w' where o: "start_finish sample_start_env user ''player123'' ''easy'' cs
                             sample_gameId game w3 = (x, l, w')"
    by (cases "start_finish sample_start_env user ''player123'' ''easy'' cs sample_gameId game w3")
  from start_finish_effect[OF o] c
  have "cache w' sample_gameId
          = Some (new_session sample_gameId user ''player123'' ''easy'' cs 1700000000000)"
    by simp
  moreover have "started_world = w'" by (simp add: started_world_def r o)
  ultimately show ?thesis by blast
qed

lemma started_world_reachable: "reachable started_world"
proof -
  have "reachable empty_world" by (rule reachable_init) (simp add: empty_world_def)
  moreover have "step empty_world started_world"
    unfolding started_world_def
    by (rule step_start[of sample_start_env sample_start_request empty_world
          "fst (start_handler sample_start_env sample_start_request empty_world)"
          "fst (snd (start_handler sample_start_env sample_start_request empty_world))"]) simp
  ultimately show ?thesis by (rule reachable_step)
qed


lemma gameStats_of_difficulty: "stats_difficulty (gameStats_of s t) = difficulty s"
  by (simp add: stats_difficulty_def gameStats_of_def)

lemma complete_run:
  assumes "ce_read env = ReadOk" "cache w (cr_gameId req) = Some s" "\<not> isCompleted s"
    and "difficulties (difficulty s) = Some config" "games w (cr_gameId req) = Some old"
    and "ce_completeGame_ok env" "ce_cacheWrite_ok env"
  shows "\<exists>sb row w1.
           calculateScore (gameStats_of s (cr_timeElapsed req)) = Inr sb
           \<and> completeGame True (ce_now env) (cr_gameId req) (totalScore sb) (moves s)
                 (cr_timeElapsed req) (int (length (matches s))) w = Inr (row, w1)
           \<and> complete_handler env req w
               = complete_finish env req (completed_session env s sb) sb (length (matches s))
                   (w1\<lparr>cache := (cache w1)(cr_gameId req \<mapsto> completed_session env s sb)\<rparr>)"
proof -
  have "difficulties (stats_difficulty (gameStats_of s (cr_timeElapsed req))) = Some config"
    using assms(4) by (simp add: gameStats_of_difficulty)
  from calculateScore_known[OF this] obtain sb where
    sb: "calculateScore (gameStats_of s (cr_timeElapsed req)) = Inr sb" by blast
  obtain row w1 where
    cg: "completeGame True (ce_now env) (cr_gameId req) (totalScore sb) (moves s)
                 (cr_timeElapsed req) (int (length (matches s))) w = Inr (row, w1)"
    using assms(5) by (simp add: completeGame_def Let_def)
  have "complete_handler env req w
               = complete_finish env req (completed_session env s sb) sb (length (matches s))
                   (w1\<lparr>cache := (cache w1)(cr_gameId req \<mapsto> completed_session env s sb)\<rparr>)"
    using assms(1,2,3,6,7) sb cg
    by (simp add: complete_handler_def getCachedGameSession_def Let_def cacheGameSession_def)
  with sb cg show ?thesis by blast
qed

lemma complete_finish_ok:
  assumes "ce_delUserStats_ok env" "ce_delLeaderboard_ok env" "ce_track_ok env"
  shows "\<exists>w5. complete_finish env req c sb n w2
           = (CompleteResponse
                \<lparr>cb_gameId = cr_gameId req, cb_finalScore = totalScore sb,
                 cb_scoreBreakdown = breakdown sb, cb_timeElapsed = cr_timeElapsed req,
                 cb_totalMoves = moves c, cb_matchesFound = n, cb_difficulty = difficulty c\<rparr>,
              (if ce_metrics_ok env then []
               else [''Game completion metrics failed (non-critical)'']),
              w5)"
  using assms by (simp add: complete_finish_def del_def trackUserActivity_def)

lemma complete_finish_track_fails:
  assumes "ce_delUserStats_ok env" "ce_delLeaderboard_ok env" "\<not> ce_track_ok env"
  shows "\<exists>w4. complete_finish env req c sb n w2
           = (ErrorResponse 500 ''Failed to complete game'', [], w4)"
  using assms
  by (simp add: complete_finish_def del_def trackUserActivity_def complete_failed_def)

lemma complete_ok_cache:
  assumes "complete_handler env req w = (CompleteResponse body, l, w')"
  shows "\<exists>s'. cache w' (cr_gameId req) = Some s' \<and> isCompleted s'"
proof -
  from complete_cases[OF assms] obtain s sb w1 where
    f: "complete_finish env req (completed_session env s sb) sb (length (matches s))
          (w1\<lparr>cache := (cache w1)(cr_gameId req \<mapsto> completed_session env s sb)\<rparr>)
        = (CompleteResponse body, l, w')"
    by auto
  from complete_finish_effect[OF f]
  have "cache w' (cr_gameId req) = Some (completed_session env s sb)" by simp
  moreover have "isCompleted (completed_session env s sb)"
    by (simp add: completed_session_def)
  ultimately show ?thesis by blast
qed

lemma match_completed:
  assumes "me_read env = ReadOk" "cache w (mr_gameId req) = Some s" "isCompleted s"
  shows "match_handler env req w = (ErrorResponse 400 ''Game already completed'', [], w)"
  using assms by (simp add: match_handler_def getCachedGameSession_def)

lemma complete_completed:
  assumes "ce_read env = ReadOk" "cache w (cr_gameId req) = Some s" "isCompleted s"
  shows "complete_handler env req w = (ErrorResponse 400 ''Game already completed'', [], w)"
  using assms by (simp add: complete_handler_def getCachedGameSession_def)

lemma find_None_card: "(find (\<lambda>c. card_id c = i) cs = None) = (i \<notin> card_id ` set cs)"
  by (auto simp: find_None_iff)

lemma match_invalid_card:
  assumes "me_read env = ReadOk" "cache w (mr_gameId req) = Some s" "\<not> isCompleted s"
    and "mr_card1Id req \<notin> card_id ` set (cards s) \<or> mr_card2Id req \<notin> card_id ` set (cards s)"
  shows "match_handler env req w = (ErrorResponse 400 ''Invalid card IDs'', [], w)"
  using assms
  by (auto simp: match_handler_def getCachedGameSession_def find_None_card [symmetric]
        split: option.splits)

lemma match_already_matched:
  assumes "me_read env = ReadOk" "cache w (mr_gameId req) = Some s" "\<not> isCompleted s"
    and "find (\<lambda>c. card_id c = mr_card1Id req) (cards s) = Some card1"
    and "find (\<lambda>c. card_id c = mr_card2Id req) (cards s) = Some card2"
    and "isMatched card1 \<or> isMatched card2"
  shows "match_handler env req w = (ErrorResponse 400 ''Cards already matched'', [], w)"
  using assms by (auto simp: match_handler_def getCachedGameSession_def)


lemma complete_success:
  assumes "reachable w" "cache w (cr_gameId req) = Some s" "\<not> isCompleted s"
    and "ce_read env = ReadOk" "ce_completeGame_ok env" "ce_cacheWrite_ok env"
    and "ce_delUserStats_ok env" "ce_delLeaderboard_ok env" "ce_track_ok env"
  shows "\<exists>sb w'.
           calculateScore (gameStats_of s (cr_timeElapsed req)) = Inr sb
           \<and> complete_handler env req w
               = (CompleteResponse
                    \<lparr>cb_gameId = cr_gameId req, cb_finalScore = totalScore sb,
                     cb_scoreBreakdown = breakdown sb, cb_timeElapsed = cr_timeElapsed req,
                     cb_totalMoves = moves s, cb_matchesFound = length (matches s),
                     cb_difficulty = difficulty s\<rparr>,
                  (if ce_metrics_ok env then []
                   else [''Game completion metrics failed (non-critical)'']),
                  w')"
proof -
  have inv: "session_inv w" using assms(1) by (rule reachable_inv)
  from session_invD(1)[OF inv assms(2)] obtain old where
    old: "games w (cr_gameId req) = Some old" by blast
  from session_invD(3)[OF inv assms(2)] obtain config where
    config: "difficulties (difficulty s) = Some config" by blast
  from complete_run[OF assms(4) assms(2) assms(3) config old assms(5) assms(6)]
  obtain sb w1 where
    sb: "calculateScore (gameStats_of s (cr_timeElapsed req)) = Inr sb"
    and run: "complete_handler env req w
               = complete_finish env req (completed_session env s sb) sb (length (matches s))
                   (w1\<lparr>cache := (cache w1)(cr_gameId req \<mapsto> completed_session env s sb)\<rparr>)"
    by blast
  from complete_finish_ok[OF assms(7) assms(8) assms(9), of req "completed_session env s sb" sb
      "length (matches s)"
      "w1\<lparr>cache := (cache w1)(cr_gameId req \<mapsto> completed_session env s sb)\<rparr>"]
  obtain w5 where
    "complete_handler env req w
       = (CompleteResponse
            \<lparr>cb_gameId = cr_gameId req, cb_finalScore = totalScore sb,
             cb_scoreBreakdown = breakdown sb, cb_timeElapsed = cr_timeElapsed req,
             cb_totalMoves = moves s, cb_matchesFound = length (matches s),
             cb_difficulty = difficulty s\<rparr>,
          (if ce_metrics_ok env then []
           else [''Game completion metrics failed (non-critical)'']),
          w5)"
    unfolding run by (auto simp: completed_session_def)
  with sb show ?thesis by blast
qed

lemma zero_match_score:
  assumes "moves s = 0" "matches s = []" "calculateScore (gameStats_of s t) = Inr sb"
  shows "gs_wrongMoves (gameStats_of s t) = 0 \<and> totalScore sb = 50
         \<and> baseScore (breakdown sb) = 0 \<and> speedBonus (breakdown sb) = 0
         \<and> perfectGameBonus (breakdown sb) = 50 \<and> streakBonus (breakdown sb) = 0
         \<and> penalties (breakdown sb) = 0"
proof -
  from assms(3) obtain config where
    config: "difficulties (stats_difficulty (gameStats_of s t)) = Some config"
    by (cases "difficulties (stats_difficulty (gameStats_of s t))")
       (auto simp: calculateScore_def Let_def)
  from assms(3) have "sb = projr (calculateScore (gameStats_of s t))" by simp
  then show ?thesis
    unfolding calculateScore_known[OF config]
    using assms(1,2)
    by (simp add: gameStats_of_def stats_consecutiveMatches_def calculateConsecutiveMatches_def)
qed

lemma sample_world_simps:
  "cache (sample_world s) sample_gameId = Some s"
  "games (sample_world s) sample_gameId = Some sample_row"
  by (simp_all add: sample_world_def)

lemma sample_deck_eq:
  "sample_deck =
     [\<lparr>card_id = ''laughing_1'', pairId = ''laughing'', emoji = [0x1f602],
       card_name = ''Crying Laugh'', category = ''classic'', isFlipped = False,
       isMatched = False, position = Some 0\<rparr>,
      \<lparr>card_id = ''laughing_2'', pairId = ''laughing'', emoji = [0x1f602],
       card_name = ''Crying Laugh'', category = ''classic'', isFlipped = False,
       isMatched = False, position = Some 1\<rparr>,
      \<lparr>card_id = ''wink_1'', pairId = ''wink'', emoji = [0x1f609],
       card_name = ''Winking Face'', category = ''classic'', isFlipped = False,
       isMatched = False, position = Some 2\<rparr>,
      \<lparr>card_id = ''wink_2'', pairId = ''wink'', emoji = [0x1f609],
       card_name = ''Winking Face'', category = ''classic'', isFlipped = False,
       isMatched = False, position = Some 3\<rparr>]"
  by (simp add: sample_deck_def assign_positions_def pair_cards_def make_card_def mk_emoji_def)

section \<open>Rejected match submissions\<close>

text \<open>
  C2.  For an in-progress cached session, a match submission with a card identifier that
  is not in the session's deck fails with "Invalid card IDs" (status 400), and one whose
  two identifiers both resolve but where a resolved card is already matched fails with
  "Cards already matched" (status 400).  In both cases the handler returns the stores it
  was given: score, move counter, card flags, match list and the persistent tables are
  as before.
\<close>

theorem match_rejects_bad_cards:
  assumes "me_read env = ReadOk" "cache w (mr_gameId req) = Some s" "\<not> isCompleted s"
  shows "(mr_card1Id req \<notin> card_id ` set (cards s) \<or> mr_card2Id req \<notin> card_id ` set (cards s)
            \<longrightarrow> match_handler env req w = (ErrorResponse 400 ''Invalid card IDs'', [], w))
       \<and> (\<forall>card1 card2.
             find (\<lambda>c. card_id c = mr_card1Id req) (cards s) = Some card1
             \<and> find (\<lambda>c. card_id c = mr_card2Id req) (cards s) = Some card2
             \<and> (isMatched card1 \<or> isMatched card2)
            \<longrightarrow> match_handler env req w = (ErrorResponse 400 ''Cards already matched'', [], w))"
  using match_invalid_card[OF assms] match_already_matched[OF assms] by blast

theorem match_rejects_bad_cards_witness:
  "match_handler sample_match_env (sample_match_request ''laughing_1'' ''ghost_1'')
       (sample_world sample_session)
     = (ErrorResponse 400 ''Invalid card IDs'', [], sample_world sample_session)
   \<and> match_handler sample_match_env (sample_match_request ''wink_1'' ''laughing_1'')
       (sample_world matched_session)
     = (ErrorResponse 400 ''Cards already matched'', [], sample_world matched_session)"
proof -
  have r: "me_read sample_match_env = ReadOk" by (simp add: sample_match_env_def)
  have c1: "cache (sample_world sample_session)
              (mr_gameId (sample_match_request ''laughing_1'' ''ghost_1'')) = Some sample_session"
    by (simp add: sample_match_request_def sample_world_simps)
  have o1: "\<not> isCompleted sample_session" by (simp add: sample_session_def)
  have i1: "mr_card2Id (sample_match_request ''laughing_1'' ''ghost_1'')
              \<notin> card_id ` set (cards sample_session)"
    by (simp add: sample_match_request_def sample_session_def sample_deck_eq)
  have c2: "cache (sample_world matched_session)
              (mr_gameId (sample_match_request ''wink_1'' ''laughing_1'')) = Some matched_session"
    by (simp add: sample_match_request_def sample_world_simps)
  have o2: "\<not> isCompleted matched_session"
    by (simp add: matched_session_def sample_session_def)
  have f1: "find (\<lambda>c. card_id c = mr_card1Id (sample_match_request ''wink_1'' ''laughing_1''))
              (cards matched_session)
            = Some \<lparr>card_id = ''wink_1'', pairId = ''wink'', emoji = [0x1f609],
                    card_name = ''Winking Face'', category = ''classic'', isFlipped = False,
                    isMatched = False, position = Some 2\<rparr>"
    by (simp add: sample_match_request_def matched_session_def sample_session_def sample_deck_eq)
  have f2: "find (\<lambda>c. card_id c = mr_card2Id (sample_match_request ''wink_1'' ''laughing_1''))
              (cards matched_session)
            = Some \<lparr>card_id = ''laughing_1'', pairId = ''laughing'', emoji = [0x1f602],
                    card_name = ''Crying Laugh'', category = ''classic'', isFlipped = False,
                    isMatched = True, position = Some 0\<rparr>"
    by (simp add: sample_match_request_def matched_session_def sample_session_def sample_deck_eq)
  from match_rejects_bad_cards[OF r c1 o1] i1
  have "match_handler sample_match_env (sample_match_request ''laughing_1'' ''ghost_1'')
          (sample_world sample_session)
        = (ErrorResponse 400 ''Invalid card IDs'', [], sample_world sample_session)"
    by blast
  moreover from match_rejects_bad_cards[OF r c2 o2] f1 f2
  have "match_handler sample_match_env (sample_match_request ''wink_1'' ''laughing_1'')
          (sample_world matched_session)
        = (ErrorResponse 400 ''Cards already matched'', [], sample_world matched_session)"
    by simp
  ultimately show ?thesis by blast
qed

section \<open>Requests on a completed session\<close>

text \<open>
  C3.  When the cached session read by the handler has its \<open>isCompleted\<close> flag set,
  a Match request and a Complete request for that session id are both answered with
  "Game already completed" (status 400) and leave the cache and the persistent tables as
  they were.  In particular, after a Complete request that returned a score, a second
  Complete request for the same id gets that conflict answer and no second score.
\<close>

theorem completed_session_rejects:
  "(cache w gid = Some s \<and> isCompleted s \<longrightarrow>
      (\<forall>env req. me_read env = ReadOk \<and> mr_gameId req = gid \<longrightarrow>
         match_handler env req w = (ErrorResponse 400 ''Game already completed'', [], w))
      \<and> (\<forall>env req. ce_read env = ReadOk \<and> cr_gameId req = gid \<longrightarrow>
         complete_handler env req w = (ErrorResponse 400 ''Game already completed'', [], w)))
   \<and> (\<forall>env1 req1 w0 body l.
        complete_handler env1 req1 w0 = (CompleteResponse body, l, w) \<longrightarrow>
        (\<forall>env2 req2. ce_read env2 = ReadOk \<and> cr_gameId req2 = cr_gameId req1 \<longrightarrow>
           complete_handler env2 req2 w
             = (ErrorResponse 400 ''Game already completed'', [], w)))"
proof (intro conjI impI allI)
  fix env :: match_env and req :: match_request
  assume "cache w gid = Some s \<and> isCompleted s" "me_read env = ReadOk \<and> mr_gameId req = gid"
  then show "match_handler env req w = (ErrorResponse 400 ''Game already completed'', [], w)"
    using match_completed[of env w req s] by blast
next
  fix env :: complete_env and req :: complete_request
  assume "cache w gid = Some s \<and> isCompleted s" "ce_read env = ReadOk \<and> cr_gameId req = gid"
  then show "complete_handler env req w = (ErrorResponse 400 ''Game already completed'', [], w)"
    using complete_completed[of env w req s] by blast
next
  fix env1 :: complete_env and req1 :: complete_request and w0 body l
    and env2 :: complete_env and req2 :: complete_request
  assume first: "complete_handler env1 req1 w0 = (CompleteResponse body, l, w)"
    and second: "ce_read env2 = ReadOk \<and> cr_gameId req2 = cr_gameId req1"
  from complete_ok_cache[OF first] obtain s' where
    "cache w (cr_gameId req1) = Some s'" "isCompleted s'" by blast
  with second show "complete_handler env2 req2 w
             = (ErrorResponse 400 ''Game already completed'', [], w)"
    using complete_completed[of env2 w req2 s'] by simp
qed

theorem completed_session_rejects_witness:
  "match_handler sample_match_env (sample_match_request ''wink_1'' ''wink_2'')
       (sample_world (sample_session\<lparr>isCompleted := True\<rparr>))
     = (ErrorResponse 400 ''Game already completed'', [],
        sample_world (sample_session\<lparr>isCompleted := True\<rparr>))
   \<and> complete_handler sample_complete_env sample_complete_request
       (sample_world (sample_session\<lparr>isCompleted := True\<rparr>))
     = (ErrorResponse 400 ''Game already completed'', [],
        sample_world (sample_session\<lparr>isCompleted := True\<rparr>))
   \<and> (\<exists>body l w1.
        complete_handler sample_complete_env sample_complete_request started_world
          = (CompleteResponse body, l, w1)
        \<and> complete_handler sample_complete_env sample_complete_request w1
          = (ErrorResponse 400 ''Game already completed'', [], w1))"
proof -
  let ?w = "sample_world (sample_session\<lparr>isCompleted := True\<rparr>)"
  have c: "cache ?w sample_gameId = Some (sample_session\<lparr>isCompleted := True\<rparr>)
           \<and> isCompleted (sample_session\<lparr>isCompleted := True\<rparr>)"
    by (simp add: sample_world_simps)
  have m: "me_read sample_match_env = ReadOk
           \<and> mr_gameId (sample_match_request ''wink_1'' ''wink_2'') = sample_gameId"
    by (simp add: sample_match_env_def sample_match_request_def)
  have k: "ce_read sample_complete_env = ReadOk
           \<and> cr_gameId sample_complete_request = sample_gameId"
    by (simp add: sample_complete_env_def sample_complete_request_def)
  note t = completed_session_rejects[of ?w sample_gameId "sample_session\<lparr>isCompleted := True\<rparr>"]
  from t c m have a: "match_handler sample_match_env (sample_match_request ''wink_1'' ''wink_2'') ?w
     = (ErrorResponse 400 ''Game already completed'', [], ?w)" by blast
  from t c k have b: "complete_handler sample_complete_env sample_complete_request ?w
     = (ErrorResponse 400 ''Game already completed'', [], ?w)" by blast
  from started_world_cache obtain user cs where
    sc: "cache started_world (cr_gameId sample_complete_request)
           = Some (new_session sample_gameId user ''player123'' ''easy'' cs 1700000000000)"
    using k by auto
  have "\<not> isCompleted (new_session sample_gameId user ''player123'' ''easy'' cs 1700000000000)"
    by (simp add: new_session_def)
  from complete_success[OF started_world_reachable sc this, of sample_complete_env]
  obtain body l w1 where
    first: "complete_handler sample_complete_env sample_complete_request started_world
              = (CompleteResponse body, l, w1)"
    by (auto simp: sample_complete_env_def)
  from completed_session_rejects[of w1 sample_gameId sample_session] first k
  have "complete_handler sample_complete_env sample_complete_request w1
          = (ErrorResponse 400 ''Game already completed'', [], w1)"
    by blast
  with a b first show ?thesis by blast
qed

section \<open>Failures on the non-critical path\<close>

lemma match_finish_response:
  "\<exists>body w'. match_finish env req s isMatch p b sb w
     = (MatchResponse body,
        (if me_cacheWrite_ok env then [] else [''Cache update failed (non-critical)''])
        @ (if me_track_ok env then [] else [''Activity tracking failed (non-critical)''])
        @ (if me_metrics_ok env then [] else [''Metrics update failed (non-critical)'']),
        w')"
  by (simp add: match_finish_def Let_def cacheGameSession_def trackUserActivity_def
        split: prod.splits)

text \<open>
  C6 does not hold for Start and Complete.  The Match handler guards its activity
  tracking with a guarded block whose \<open>catch\<close> logs a warning and goes on; the Start and
  Complete handlers await the same call without a guard, so its failure reaches the
  handler's outer \<open>catch\<close> and the request is answered with status 500, for Complete
  after the game row and the cached session have already been marked completed.  The
  three handlers at the sample requests, with the activity tracking failing:
\<close>

theorem tracking_failure_fails_request:
  "fst (complete_handler (sample_complete_env\<lparr>ce_track_ok := False\<rparr>) sample_complete_request
          (sample_world sample_session))
     = ErrorResponse 500 ''Failed to complete game''
   \<and> fst (start_handler (sample_start_env\<lparr>se_track_ok := False\<rparr>) sample_start_request
            empty_world)
     = ErrorResponse 500 ''Failed to start game''
   \<and> (\<exists>body. fst (match_handler (sample_match_env\<lparr>me_track_ok := False\<rparr>)
                     (sample_match_request ''laughing_1'' ''wink_1'')
                     (sample_world sample_session))
              = MatchResponse body)
   \<and> fst (snd (match_handler (sample_match_env\<lparr>me_track_ok := False\<rparr>)
                 (sample_match_request ''laughing_1'' ''wink_1'')
                 (sample_world sample_session)))
     = [''Activity tracking failed (non-critical)'', ''Metrics update failed (non-critical)'']"
proof -
  let ?cenv = "sample_complete_env\<lparr>ce_track_ok := False\<rparr>"
  let ?w = "sample_world sample_session"
  have e: "ce_read ?cenv = ReadOk" "ce_completeGame_ok ?cenv" "ce_cacheWrite_ok ?cenv"
    "ce_delUserStats_ok ?cenv" "ce_delLeaderboard_ok ?cenv" "\<not> ce_track_ok ?cenv"
    by (simp_all add: sample_complete_env_def)
  have c: "cache ?w (cr_gameId sample_complete_request) = Some sample_session"
    "games ?w (cr_gameId sample_complete_request) = Some sample_row"
    by (simp_all add: sample_complete_request_def sample_world_simps)
  have o: "\<not> isCompleted sample_session" "difficulties (difficulty sample_session) = Some easy_config"
    by (simp_all add: sample_session_def difficulties_def)
  from complete_run[OF e(1) c(1) o(1) o(2) c(2) e(2) e(3)]
  obtain sb w1 where
    run: "complete_handler ?cenv sample_complete_request ?w
            = complete_finish ?cenv sample_complete_request (completed_session ?cenv sample_session sb)
                sb (length (matches sample_session))
                (w1\<lparr>cache := (cache w1)(cr_gameId sample_complete_request
                                           \<mapsto> completed_session ?cenv sample_session sb)\<rparr>)"
    by blast
  from complete_finish_track_fails[OF e(4) e(5) e(6)]
  have 1: "fst (complete_handler ?cenv sample_complete_request ?w)
             = ErrorResponse 500 ''Failed to complete game''"
    unfolding run by (metis fst_conv)
  let ?senv = "sample_start_env\<lparr>se_track_ok := False\<rparr>"
  have s: "se_selectUser_ok ?senv" "se_insertUser_ok ?senv" "se_insertGame_ok ?senv"
    "se_cacheWrite_ok ?senv" "\<not> se_track_ok ?senv"
    by (simp_all add: sample_start_env_def)
  from sample_start_run[OF s(1-4)] start_finish_track_fails[OF s(5)]
  have 2: "fst (start_handler ?senv sample_start_request empty_world)
             = ErrorResponse 500 ''Failed to start game''"
    by auto
  let ?menv = "sample_match_env\<lparr>me_track_ok := False\<rparr>"
  let ?req = "sample_match_request ''laughing_1'' ''wink_1''"
  have m: "match_handler ?menv ?req ?w = match_finish ?menv ?req sample_session False 0 0 False ?w"
    by (simp add: match_handler_def getCachedGameSession_def sample_match_env_def
          sample_match_request_def sample_world_simps sample_session_def sample_deck_eq)
  from match_finish_response[of ?menv ?req sample_session False 0 0 False ?w]
  obtain body w' where
    "match_finish ?menv ?req sample_session False 0 0 False ?w
       = (MatchResponse body,
          [''Activity tracking failed (non-critical)'', ''Metrics update failed (non-critical)''],
          w')"
    by (auto simp: sample_match_env_def)
  with m have 3: "\<exists>body. fst (match_handler ?menv ?req ?w) = MatchResponse body"
    and 4: "fst (snd (match_handler ?menv ?req ?w))
       = [''Activity tracking failed (non-critical)'', ''Metrics update failed (non-critical)'']"
    by simp_all
  from 1 2 3 4 show ?thesis by blast
qed

section \<open>Order of the two writes at completion\<close>

text \<open>
  C7.  In the Complete handler the cached session is marked completed only after the
  persistent completion write has succeeded.  If \<open>completeGame\<close> fails (the query
  fails, or no row has the id), the handler answers with an error and returns both
  stores unchanged, so the cached session keeps its in-progress state; and whenever the
  handler changes the cache, the game row of that id is already marked completed with
  the final score that the cached session now carries.
\<close>

theorem completion_cache_after_store:
  assumes "complete_handler env req w = (r, l, w')"
  shows "(\<not> ce_completeGame_ok env \<or> games w (cr_gameId req) = None
            \<longrightarrow> w' = w \<and> (\<exists>code msg. r = ErrorResponse code msg))
       \<and> (cache w' \<noteq> cache w
            \<longrightarrow> (\<exists>row s s'. games w' (cr_gameId req) = Some row \<and> game_completed row
                    \<and> cache w (cr_gameId req) = Some s \<and> \<not> isCompleted s
                    \<and> cache w' = (cache w)(cr_gameId req \<mapsto> s')
                    \<and> isCompleted s' \<and> finalScore s' = Some (g_score row)))"
proof -
  from complete_cases[OF assms] show ?thesis
  proof (elim disjE exE conjE)
    fix code msg
    assume "w' = w" "r = ErrorResponse code msg"
    then show ?thesis by simp
  next
    fix s :: game_session and sb :: score_result and row w1
    assume a: "completeGame (ce_completeGame_ok env) (ce_now env) (cr_gameId req)
                     (totalScore sb) (moves s) (cr_timeElapsed req)
                     (int (length (matches s))) w = Inr (row, w1)"
      and b: "w' = w1" "r = ErrorResponse 500 ''Failed to complete game''"
    from completeGame_Inr[OF a] obtain us where
      ok: "ce_completeGame_ok env" "cr_gameId req \<in> dom (games w)"
      and w1: "w1 = w\<lparr>games := (games w)(cr_gameId req \<mapsto> row), users := us\<rparr>" by blast
    from b(1) w1 have "cache w' = cache w" by simp
    with ok show ?thesis by auto
  next
    fix s sb row w1
    let ?s' = "completed_session env s sb"
    assume c: "cache w (cr_gameId req) = Some s" "\<not> isCompleted s"
      and a: "completeGame (ce_completeGame_ok env) (ce_now env) (cr_gameId req)
                     (totalScore sb) (moves s) (cr_timeElapsed req)
                     (int (length (matches s))) w = Inr (row, w1)"
      and f: "complete_finish env req ?s' sb (length (matches s))
                (w1\<lparr>cache := (cache w1)(cr_gameId req \<mapsto> ?s')\<rparr>) = (r, l, w')"
    from completeGame_Inr[OF a] obtain us where
      ok: "ce_completeGame_ok env" "cr_gameId req \<in> dom (games w)"
        "game_completed row" "g_score row = totalScore sb"
      and w1: "w1 = w\<lparr>games := (games w)(cr_gameId req \<mapsto> row), users := us\<rparr>" by blast
    from complete_finish_effect[OF f] w1
    have k: "cache w' = (cache w)(cr_gameId req \<mapsto> ?s')"
      and g: "games w' (cr_gameId req) = Some row" by simp_all
    have p: "isCompleted ?s'" "finalScore ?s' = Some (g_score row)"
      by (simp_all add: completed_session_def ok(4))
    from g ok(3) c k p
    have "\<exists>row s s'. games w' (cr_gameId req) = Some row \<and> game_completed row
                    \<and> cache w (cr_gameId req) = Some s \<and> \<not> isCompleted s
                    \<and> cache w' = (cache w)(cr_gameId req \<mapsto> s')
                    \<and> isCompleted s' \<and> finalScore s' = Some (g_score row)" by blast
    with ok(1,2) show ?thesis by auto
  qed
qed

theorem completion_cache_after_store_witness:
  "snd (snd (complete_handler (sample_complete_env\<lparr>ce_completeGame_ok := False\<rparr>)
               sample_complete_request (sample_world sample_session)))
     = sample_world sample_session
   \<and> cache (sample_world sample_session) sample_gameId = Some sample_session
   \<and> \<not> isCompleted sample_session
   \<and> (\<exists>row s'. games (snd (snd (complete_handler sample_complete_env sample_complete_request
                                    (sample_world sample_session)))) sample_gameId = Some row
        \<and> game_completed row
        \<and> cache (snd (snd (complete_handler sample_complete_env sample_complete_request
                             (sample_world sample_session)))) sample_gameId = Some s'
        \<and> isCompleted s' \<and> finalScore s' = Some (g_score row))"
proof -
  let ?w = "sample_world sample_session"
  let ?bad = "sample_complete_env\<lparr>ce_completeGame_ok := False\<rparr>"
  have g: "cr_gameId sample_complete_request = sample_gameId"
    by (simp add: sample_complete_request_def)
  obtain r l w' where bad: "complete_handler ?bad sample_complete_request ?w = (r, l, w')"
    by (cases "complete_handler ?bad sample_complete_request ?w")
  have "\<not> ce_completeGame_ok ?bad" by (simp add: sample_complete_env_def)
  with completion_cache_after_store[OF bad] have "w' = ?w" by blast
  with bad have 1: "snd (snd (complete_handler ?bad sample_complete_request ?w)) = ?w" by simp
  have e: "ce_read sample_complete_env = ReadOk" "ce_completeGame_ok sample_complete_env"
    "ce_cacheWrite_ok sample_complete_env"
    by (simp_all add: sample_complete_env_def)
  have c: "cache ?w (cr_gameId sample_complete_request) = Some sample_session"
    "games ?w (cr_gameId sample_complete_request) = Some sample_row"
    by (simp_all add: g sample_world_simps)
  have o: "\<not> isCompleted sample_session" "difficulties (difficulty sample_session) = Some easy_config"
    by (simp_all add: sample_session_def difficulties_def)
  obtain r2 l2 w2 where good: "complete_handler sample_complete_env sample_complete_request ?w
                                 = (r2, l2, w2)"
    by (cases "complete_handler sample_complete_env sample_complete_request ?w")
  from complete_run[OF e(1) c(1) o(1) o(2) c(2) e(2) e(3)] good
  obtain sb w1 where
    "complete_finish sample_complete_env sample_complete_request
       (completed_session sample_complete_env sample_session sb) sb
       (length (matches sample_session))
       (w1\<lparr>cache := (cache w1)(cr_gameId sample_complete_request
                                  \<mapsto> completed_session sample_complete_env sample_session sb)\<rparr>)
     = (r2, l2, w2)"
    by auto
  from complete_finish_effect[OF this]
  have k: "cache w2 sample_gameId
             = Some (completed_session sample_complete_env sample_session sb)"
    by (simp add: g)
  have "cache w2 \<noteq> cache ?w"
  proof
    assume "cache w2 = cache ?w"
    then have "cache w2 sample_gameId = cache ?w sample_gameId" by simp
    with k c(1) have "completed_session sample_complete_env sample_session sb = sample_session"
      by (simp add: g)
    then have "isCompleted (completed_session sample_complete_env sample_session sb)
                 = isCompleted sample_session" by simp
    with o(1) show False by (simp add: completed_session_def)
  qed
  with completion_cache_after_store[OF good]
  obtain row and s :: game_session and s' where
    "games w2 (cr_gameId sample_complete_request) = Some row" "game_completed row"
    "cache w2 = (cache ?w)(cr_gameId sample_complete_request \<mapsto> s')"
    "isCompleted s'" "finalScore s' = Some (g_score row)"
    by blast
  then have "\<exists>row s'. games w2 sample_gameId = Some row \<and> game_completed row
        \<and> cache w2 sample_gameId = Some s'
        \<and> isCompleted s' \<and> finalScore s' = Some (g_score row)"
    by (auto simp: g)
  with good have 2: "\<exists>row s'. games (snd (snd (complete_handler sample_complete_env
                         sample_complete_request ?w))) sample_gameId = Some row
        \<and> game_completed row
        \<and> cache (snd (snd (complete_handler sample_complete_env sample_complete_request ?w)))
             sample_gameId = Some s'
        \<and> isCompleted s' \<and> finalScore s' = Some (g_score row)"
    by simp
  from 1 2 c(1) o(1) show ?thesis by (simp add: g)
qed

section \<open>Completion before all pairs are matched\<close>

lemma completeGame_row:
  assumes "completeGame ok now gid sc mv te cm w = Inr (row, w1)"
  shows "game_completed row \<and> g_score row = sc \<and> g_moves row = mv \<and> time_elapsed row = te
         \<and> cards_matched row = cm \<and> completed_at row = Some now
         \<and> games w1 gid = Some row \<and> cache w1 = cache w
         \<and> other_keys w1 = other_keys w"
  using assms by (auto simp: completeGame_def Let_def split: if_splits option.splits)

lemma complete_finish_keys:
  assumes "ce_delUserStats_ok env" "ce_delLeaderboard_ok env" "ce_track_ok env"
    and "complete_finish env req c sb n w2 = (r, l, w')"
  shows "other_keys w' = other_keys w2 - {''user:stats:'' @ username c, ''leaderboard:top''}"
proof -
  from assms(4) have "w' = incr (''activity:'' @ username c @ '':'' @ ''game_complete'' @ '':'' @ ce_hour env)
                        (w2\<lparr>other_keys := other_keys w2 - {''user:stats:'' @ username c}
                                              - {''leaderboard:top''}\<rparr>)"
    using assms(1-3) by (simp add: complete_finish_def del_def trackUserActivity_def)
  then have "other_keys w' = other_keys w2 - {''user:stats:'' @ username c} - {''leaderboard:top''}"
    by (simp add: incr_def)
  also have "\<dots> = other_keys w2 - {''user:stats:'' @ username c, ''leaderboard:top''}"
    by blast
  finally show ?thesis .
qed

lemma complete_success_state:
  assumes "reachable w" "cache w (cr_gameId req) = Some s" "\<not> isCompleted s"
    and "ce_read env = ReadOk" "ce_completeGame_ok env" "ce_cacheWrite_ok env"
    and "ce_delUserStats_ok env" "ce_delLeaderboard_ok env" "ce_track_ok env"
  shows "\<exists>sb row w'.
           calculateScore (gameStats_of s (cr_timeElapsed req)) = Inr sb
           \<and> complete_handler env req w
               = (CompleteResponse
                    \<lparr>cb_gameId = cr_gameId req, cb_finalScore = totalScore sb,
                     cb_scoreBreakdown = breakdown sb, cb_timeElapsed = cr_timeElapsed req,
                     cb_totalMoves = moves s, cb_matchesFound = length (matches s),
                     cb_difficulty = difficulty s\<rparr>,
                  (if ce_metrics_ok env then []
                   else [''Game completion metrics failed (non-critical)'']),
                  w')
           \<and> games w' (cr_gameId req) = Some row
           \<and> game_completed row \<and> g_score row = totalScore sb \<and> g_moves row = moves s
           \<and> time_elapsed row = cr_timeElapsed req
           \<and> cards_matched row = int (length (matches s))
           \<and> cache w' = (cache w)(cr_gameId req \<mapsto> completed_session env s sb)
           \<and> other_keys w'
               = other_keys w - {''user:stats:'' @ username s, ''leaderboard:top''}"
proof -
  have inv: "session_inv w" using assms(1) by (rule reachable_inv)
  from session_invD(1)[OF inv assms(2)] obtain old where
    old: "games w (cr_gameId req) = Some old" by blast
  from session_invD(3)[OF inv assms(2)] obtain config where
    config: "difficulties (difficulty s) = Some config" by blast
  from complete_run[OF assms(4) assms(2) assms(3) config old assms(5) assms(6)]
  obtain sb row w1 where
    sb: "calculateScore (gameStats_of s (cr_timeElapsed req)) = Inr sb"
    and cg: "completeGame True (ce_now env) (cr_gameId req) (totalScore sb) (moves s)
                 (cr_timeElapsed req) (int (length (matches s))) w = Inr (row, w1)"
    and run: "complete_handler env req w
               = complete_finish env req (completed_session env s sb) sb (length (matches s))
                   (w1\<lparr>cache := (cache w1)(cr_gameId req \<mapsto> completed_session env s sb)\<rparr>)"
    by blast
  let ?w2 = "w1\<lparr>cache := (cache w1)(cr_gameId req \<mapsto> completed_session env s sb)\<rparr>"
  from complete_finish_ok[OF assms(7) assms(8) assms(9), of req "completed_session env s sb" sb
      "length (matches s)" ?w2]
  obtain w5 where
    fin: "complete_finish env req (completed_session env s sb) sb (length (matches s)) ?w2
       = (CompleteResponse
            \<lparr>cb_gameId = cr_gameId req, cb_finalScore = totalScore sb,
             cb_scoreBreakdown = breakdown sb, cb_timeElapsed = cr_timeElapsed req,
             cb_totalMoves = moves (completed_session env s sb),
             cb_matchesFound = length (matches s),
             cb_difficulty = difficulty (completed_session env s sb)\<rparr>,
          (if ce_metrics_ok env then []
           else [''Game completion metrics failed (non-critical)'']),
          w5)"
    by blast
  from complete_finish_effect[OF fin]
  have st: "cache w5 = cache ?w2" "games w5 = games ?w2" by simp_all
  note row = completeGame_row[OF cg]
  from st row have c5: "cache w5 = (cache w)(cr_gameId req \<mapsto> completed_session env s sb)"
    and g5: "games w5 (cr_gameId req) = Some row" by simp_all
  have f: "moves (completed_session env s sb) = moves s"
    "difficulty (completed_session env s sb) = difficulty s"
    by (simp_all add: completed_session_def)
  from complete_finish_keys[OF assms(7) assms(8) assms(9) fin] row
  have k5: "other_keys w5 = other_keys w - {''user:stats:'' @ username s, ''leaderboard:top''}"
    by (simp add: completed_session_def)
  from run fin f have r: "complete_handler env req w
               = (CompleteResponse
                    \<lparr>cb_gameId = cr_gameId req, cb_finalScore = totalScore sb,
                     cb_scoreBreakdown = breakdown sb, cb_timeElapsed = cr_timeElapsed req,
                     cb_totalMoves = moves s, cb_matchesFound = length (matches s),
                     cb_difficulty = difficulty s\<rparr>,
                  (if ce_metrics_ok env then []
                   else [''Game completion metrics failed (non-critical)'']),
                  w5)" by simp
  define K where "K = other_keys w - {''user:stats:'' @ username s, ''leaderboard:top''}"
  from k5 have "other_keys w5 = K" by (simp only: K_def)
  with sb r g5 row c5 show ?thesis unfolding K_def [symmetric] by blast
qed

text \<open>
  C10.  The Complete handler does not ask that all pairs are matched: for every cached
  session of a reachable store whose \<open>isCompleted\<close> flag is not set, whatever its match
  list, the request succeeds when its I/O succeeds.  It answers with the score that the
  calculator gives for the session; the game row is then marked completed with that
  score, the session's moves, its number of matches and the elapsed time; the cached
  session is marked completed with the same final score, its moves, running score and
  cards as before; and the user-statistics and leaderboard keys are removed.  For a
  session with no moves and no matches the wrong-move count is 0, the perfect-game bonus
  of 50 is awarded, the speed bonus on the base score 0 is 0, and the final score is 50.
\<close>

theorem complete_without_all_pairs:
  assumes "reachable w" "cache w (cr_gameId req) = Some s" "\<not> isCompleted s"
    and "ce_read env = ReadOk" "ce_completeGame_ok env" "ce_cacheWrite_ok env"
    and "ce_delUserStats_ok env" "ce_delLeaderboard_ok env" "ce_track_ok env"
  shows "\<exists>body l w' sb row s'.
           complete_handler env req w = (CompleteResponse body, l, w')
           \<and> calculateScore (gameStats_of s (cr_timeElapsed req)) = Inr sb
           \<and> cb_finalScore body = totalScore sb \<and> cb_scoreBreakdown body = breakdown sb
           \<and> cb_totalMoves body = moves s \<and> cb_matchesFound body = length (matches s)
           \<and> games w' (cr_gameId req) = Some row
           \<and> game_completed row \<and> g_score row = cb_finalScore body
           \<and> g_moves row = moves s \<and> cards_matched row = int (length (matches s))
           \<and> time_elapsed row = cr_timeElapsed req
           \<and> cache w' = (cache w)(cr_gameId req \<mapsto> s')
           \<and> isCompleted s' \<and> finalScore s' = Some (cb_finalScore body)
           \<and> moves s' = moves s \<and> score s' = score s \<and> cards s' = cards s
           \<and> other_keys w'
               = other_keys w - {''user:stats:'' @ username s, ''leaderboard:top''}
           \<and> (moves s = 0 \<and> matches s = [] \<longrightarrow>
                gs_wrongMoves (gameStats_of s (cr_timeElapsed req)) = 0
                \<and> perfectGameBonus (cb_scoreBreakdown body) = 50
                \<and> baseScore (cb_scoreBreakdown body) = 0
                \<and> speedBonus (cb_scoreBreakdown body) = 0
                \<and> cb_finalScore body = 50)"
proof -
  define K where "K = other_keys w - {''user:stats:'' @ username s, ''leaderboard:top''}"
  from complete_success_state[OF assms, folded K_def] obtain sb row w' where
    sb: "calculateScore (gameStats_of s (cr_timeElapsed req)) = Inr sb"
    and run: "complete_handler env req w
               = (CompleteResponse
                    \<lparr>cb_gameId = cr_gameId req, cb_finalScore = totalScore sb,
                     cb_scoreBreakdown = breakdown sb, cb_timeElapsed = cr_timeElapsed req,
                     cb_totalMoves = moves s, cb_matchesFound = length (matches s),
                     cb_difficulty = difficulty s\<rparr>,
                  (if ce_metrics_ok env then []
                   else [''Game completion metrics failed (non-critical)'']),
                  w')"
    and row: "games w' (cr_gameId req) = Some row" "game_completed row"
      "g_score row = totalScore sb" "g_moves row = moves s"
      "time_elapsed row = cr_timeElapsed req" "cards_matched row = int (length (matches s))"
    and c: "cache w' = (cache w)(cr_gameId req \<mapsto> completed_session env s sb)"
    and k: "other_keys w' = K"
    by blast
  let ?s' = "completed_session env s sb"
  have s': "isCompleted ?s'" "finalScore ?s' = Some (totalScore sb)" "moves ?s' = moves s"
    "score ?s' = score s" "cards ?s' = cards s"
    by (simp_all add: completed_session_def)
  have z: "moves s = 0 \<and> matches s = [] \<longrightarrow>
          gs_wrongMoves (gameStats_of s (cr_timeElapsed req)) = 0
          \<and> perfectGameBonus (breakdown sb) = 50 \<and> baseScore (breakdown sb) = 0
          \<and> speedBonus (breakdown sb) = 0 \<and> totalScore sb = 50"
    using zero_match_score[OF _ _ sb] by blast
  let ?body = "\<lparr>cb_gameId = cr_gameId req, cb_finalScore = totalScore sb,
                     cb_scoreBreakdown = breakdown sb, cb_timeElapsed = cr_timeElapsed req,
                     cb_totalMoves = moves s, cb_matchesFound = length (matches s),
                     cb_difficulty = difficulty s\<rparr>"
  have "complete_handler env req w = (CompleteResponse ?body,
           (if ce_metrics_ok env then []
            else [''Game completion metrics failed (non-critical)'']), w')
           \<and> calculateScore (gameStats_of s (cr_timeElapsed req)) = Inr sb
           \<and> cb_finalScore ?body = totalScore sb \<and> cb_scoreBreakdown ?body = breakdown sb
           \<and> cb_totalMoves ?body = moves s \<and> cb_matchesFound ?body = length (matches s)
           \<and> games w' (cr_gameId req) = Some row
           \<and> game_completed row \<and> g_score row = cb_finalScore ?body
           \<and> g_moves row = moves s \<and> cards_matched row = int (length (matches s))
           \<and> time_elapsed row = cr_timeElapsed req
           \<and> cache w' = (cache w)(cr_gameId req \<mapsto> ?s')
           \<and> isCompleted ?s' \<and> finalScore ?s' = Some (cb_finalScore ?body)
           \<and> moves ?s' = moves s \<and> score ?s' = score s \<and> cards ?s' = cards s
           \<and> other_keys w' = K
           \<and> (moves s = 0 \<and> matches s = [] \<longrightarrow>
                gs_wrongMoves (gameStats_of s (cr_timeElapsed req)) = 0
                \<and> perfectGameBonus (cb_scoreBreakdown ?body) = 50
                \<and> baseScore (cb_scoreBreakdown ?body) = 0
                \<and> speedBonus (cb_scoreBreakdown ?body) = 0
                \<and> cb_finalScore ?body = 50)"
    using run sb row c k s' z by simp
  then show ?thesis unfolding K_def [symmetric] by blast
qed

theorem complete_without_all_pairs_witness:
  "reachable started_world
   \<and> (\<exists>body l w' row s'.
        complete_handler sample_complete_env sample_complete_request started_world
          = (CompleteResponse body, l, w')
        \<and> cb_totalMoves body = 0 \<and> cb_matchesFound body = 0 \<and> cb_finalScore body = 50
        \<and> games w' sample_gameId = Some row \<and> game_completed row \<and> g_score row = 50
        \<and> cache w' sample_gameId = Some s' \<and> isCompleted s' \<and> finalScore s' = Some 50)"
proof -
  have g: "cr_gameId sample_complete_request = sample_gameId"
    by (simp add: sample_complete_request_def)
  from started_world_cache obtain user cs where
    sc: "cache started_world (cr_gameId sample_complete_request)
           = Some (new_session sample_gameId user ''player123'' ''easy'' cs 1700000000000)"
    by (auto simp: g)
  let ?s = "new_session sample_gameId user ''player123'' ''easy'' cs 1700000000000"
  have o: "\<not> isCompleted ?s" "moves ?s = 0" "matches ?s = []"
    by (simp_all add: new_session_def)
  have e: "ce_read sample_complete_env = ReadOk" "ce_completeGame_ok sample_complete_env"
    "ce_cacheWrite_ok sample_complete_env" "ce_delUserStats_ok sample_complete_env"
    "ce_delLeaderboard_ok sample_complete_env" "ce_track_ok sample_complete_env"
    by (simp_all add: sample_complete_env_def)
  define K where "K = other_keys started_world - {''user:stats:'' @ username ?s, ''leaderboard:top''}"
  from complete_without_all_pairs[OF started_world_reachable sc o(1) e, folded K_def]
  obtain body l w' and sb :: score_result and row s' where
    "complete_handler sample_complete_env sample_complete_request started_world
       = (CompleteResponse body, l, w')"
    "cb_totalMoves body = moves ?s" "cb_matchesFound body = length (matches ?s)"
    "games w' (cr_gameId sample_complete_request) = Some row" "game_completed row"
    "g_score row = cb_finalScore body"
    "cache w' = (cache started_world)(cr_gameId sample_complete_request \<mapsto> s')"
    "isCompleted s'" "finalScore s' = Some (cb_finalScore body)"
    "moves ?s = 0 \<and> matches ?s = [] \<longrightarrow> cb_finalScore body = 50"
    by blast
  with o(2,3) have "complete_handler sample_complete_env sample_complete_request started_world
          = (CompleteResponse body, l, w')
        \<and> cb_totalMoves body = 0 \<and> cb_matchesFound body = 0 \<and> cb_finalScore body = 50
        \<and> games w' sample_gameId = Some row \<and> game_completed row \<and> g_score row = 50
        \<and> cache w' sample_gameId = Some s' \<and> isCompleted s' \<and> finalScore s' = Some 50"
    by (simp add: g)
  then show ?thesis using started_world_reachable by blast
qed


section \<open>Closed instances for the streak and the invariants\<close>

theorem streak_fed_to_score_witness:
  "calculateConsecutiveMatches (matches streak_session) = 3
   \<and> spec_longest_run (matches streak_session) = 3
   \<and> gs_consecutiveMatches (gameStats_of streak_session 120000) = Some 3
   \<and> gs_wrongMoves (gameStats_of streak_session 120000) = 2"
proof -
  have c: "calculateConsecutiveMatches (matches streak_session) = 3"
    by (simp add: streak_session_def sample_session_def sample_match_def
          calculateConsecutiveMatches_def sortedMatches_def)
  have m: "moves streak_session = 7" "length (matches streak_session) = 5"
    by (simp_all add: streak_session_def sample_session_def)
  from streak_fed_to_score[of streak_session 120000] c m show ?thesis by simp
qed

theorem reachable_session_invariants_witness:
  "reachable completed_world
   \<and> step\<^sup>*\<^sup>* completed_world later_world
   \<and> (\<exists>s. cache completed_world sample_gameId = Some s \<and> isCompleted s
          \<and> int (length (matches s)) \<le> moves s)
   \<and> (\<exists>s'. cache later_world sample_gameId = Some s' \<and> isCompleted s')"
proof -
  have g: "cr_gameId sample_complete_request = sample_gameId"
    by (simp add: sample_complete_request_def)
  from started_world_cache obtain user cs where
    sc: "cache started_world (cr_gameId sample_complete_request)
           = Some (new_session sample_gameId user ''player123'' ''easy'' cs 1700000000000)"
    by (auto simp: g)
  have o: "\<not> isCompleted (new_session sample_gameId user ''player123'' ''easy'' cs 1700000000000)"
    by (simp add: new_session_def)
  from complete_success[OF started_world_reachable sc o, of sample_complete_env]
  obtain body l w1 where
    first: "complete_handler sample_complete_env sample_complete_request started_world
              = (CompleteResponse body, l, w1)"
    by (auto simp: sample_complete_env_def)
  then have w1: "completed_world = w1" by (simp add: completed_world_def)
  from first have "step started_world w1" by (rule step_complete)
  with started_world_reachable have r: "reachable completed_world"
    unfolding w1 by (rule reachable_step)
  from complete_ok_cache[OF first] obtain s where
    s: "cache completed_world sample_gameId = Some s" "isCompleted s"
    unfolding w1 g by blast
  have "step completed_world later_world"
    unfolding later_world_def
    by (rule step_match[of sample_match_env "sample_match_request ''laughing_1'' ''laughing_2''"
          completed_world
          "fst (match_handler sample_match_env (sample_match_request ''laughing_1'' ''laughing_2'')
                  completed_world)"
          "fst (snd (match_handler sample_match_env
                       (sample_match_request ''laughing_1'' ''laughing_2'') completed_world))"])
       simp
  then have st: "step\<^sup>*\<^sup>* completed_world later_world" by (rule r_into_rtranclp)
  note t = reachable_session_invariants[OF r]
  from t s(1) have "int (length (matches s)) \<le> moves s" by blast
  moreover from t st s have "\<exists>s'. cache later_world sample_gameId = Some s' \<and> isCompleted s'"
    by blast
  ultimately show ?thesis using r st s by blast
qed


end
